theory Spec2Isabelle
  imports Main "HOL-Library.Sublist" "HOL-Library.Word"
begin

section \<open>Data model\<close>

text \<open>
  JavaScript values as far as the modelled code inspects them, and object literals as
  association lists in property order (the order \<open>Object.entries\<close> enumerates).
\<close>

datatype jsval = JUndefined | JNull | JBool bool | JNum int | JStr string

type_synonym obj = "(string \<times> jsval) list"

text \<open>Property read \<open>o.k\<close>: a missing property reads as \<open>undefined\<close>.\<close>

definition get_prop :: "obj \<Rightarrow> string \<Rightarrow> jsval" where
  "get_prop ob k = (case map_of ob k of None \<Rightarrow> JUndefined | Some v \<Rightarrow> v)"

definition has_key :: "obj \<Rightarrow> string \<Rightarrow> bool" where
  "has_key ob k = (k \<in> set (map fst ob))"

text \<open>The truthiness test of \<open>if (v)\<close> and \<open>!v\<close>.\<close>

fun truthy :: "jsval \<Rightarrow> bool" where
  "truthy JUndefined = False"
| "truthy JNull = False"
| "truthy (JBool b) = b"
| "truthy (JNum n) = (n \<noteq> 0)"
| "truthy (JStr s) = (s \<noteq> [])"

text \<open>
  A thrown exception is carried as a value; the string is the exception's \<open>message\<close>.
\<close>

datatype 'a outcome = Throws string | Returns 'a

text \<open>
  \<open>new Date(s)\<close> of a truthy \<open>publishedAt\<close>: an invalid date (its time value is NaN) or
  a time value in milliseconds.
\<close>

datatype jsdate = InvalidDate | TimeValue int

record company =
  name :: string

text \<open>
  A job listing. \<open>publishedAt\<close> is \<open>None\<close> when the property is missing or otherwise
  falsy, and the parsed date when it is present.
\<close>

record job =
  job_id :: string
  title :: string
  company :: company
  applicationUrl :: string
  publishedAt :: "jsdate option"

section \<open>Portal classification\<close>

text \<open>\<open>s.includes(t)\<close>: \<open>t\<close> occurs in \<open>s\<close> as a contiguous substring.\<close>

fun str_includes :: "string \<Rightarrow> string \<Rightarrow> bool" where
  "str_includes [] t = (t = [])"
| "str_includes (c # s) t = (take (length t) (c # s) = t \<or> str_includes s t)"

text \<open>\<open>AutomatedJobApplicant.detectApplicationSystem(url)\<close>.\<close>

definition detectApplicationSystem :: "string \<Rightarrow> string" where
  "detectApplicationSystem url =
     (if str_includes url ''myworkdayjobs.com'' \<or> str_includes url ''workday.com'' then ''workday''
      else if str_includes url ''greenhouse.io'' then ''greenhouse''
      else if str_includes url ''lever.co'' then ''lever''
      else if str_includes url ''indeed.com'' then ''indeed''
      else if str_includes url ''linkedin.com'' then ''linkedin''
      else ''generic'')"

text \<open>\<open>determinePortal(url)\<close> of the auto-apply routes: the portal whose credentials are used.\<close>

definition determinePortal :: "string \<Rightarrow> string" where
  "determinePortal url =
     (if str_includes url ''myworkdayjobs.com'' \<or> str_includes url ''workday.com'' then ''workday''
      else if str_includes url ''greenhouse.io'' then ''greenhouse''
      else if str_includes url ''lever.co'' then ''lever''
      else if str_includes url ''indeed.com'' then ''indeed''
      else if str_includes url ''linkedin.com'' then ''linkedin''
      else if str_includes url ''glassdoor.com'' then ''glassdoor''
      else ''other'')"

text \<open>The domain fragments the dispatcher of the application adapters knows.\<close>

definition known_fragments :: "string list" where
  "known_fragments =
     [''myworkdayjobs.com'', ''workday.com'', ''greenhouse.io'', ''lever.co'',
      ''indeed.com'', ''linkedin.com'']"

definition portal_kinds :: "string list" where
  "portal_kinds = [''workday'', ''greenhouse'', ''lever'', ''indeed'', ''linkedin'', ''generic'']"

section \<open>Recency filter and deduplication\<close>














text \<open>
  The key of \<open>removeDuplicateJobs\<close>:
  \<^verbatim>\<open>`${job.title.toLowerCase()}-${job.company.name.toLowerCase()}`\<close>.
  \<open>String.prototype.toLowerCase\<close> is a parameter of the model.
\<close>

definition dedup_key :: "(string \<Rightarrow> string) \<Rightarrow> 'a job_scheme \<Rightarrow> string" where
  "dedup_key toLowerCase job = toLowerCase (title job) @ ''-'' @ toLowerCase (name (company job))"

text \<open>The loop of \<open>removeDuplicateJobs\<close>, with its two accumulators \<open>seen\<close> and \<open>uniqueJobs\<close>.\<close>

fun removeDuplicateJobs_loop ::
  "(string \<Rightarrow> string) \<Rightarrow> ('a job_scheme) list \<Rightarrow> string set \<Rightarrow> ('a job_scheme) list \<Rightarrow> ('a job_scheme) list" where
  "removeDuplicateJobs_loop toLowerCase [] seen uniqueJobs = uniqueJobs"
| "removeDuplicateJobs_loop toLowerCase (job # jobs) seen uniqueJobs =
     (let key = dedup_key toLowerCase job
      in if key \<notin> seen
         then removeDuplicateJobs_loop toLowerCase jobs (insert key seen) (uniqueJobs @ [job])
         else removeDuplicateJobs_loop toLowerCase jobs seen uniqueJobs)"

definition removeDuplicateJobs :: "(string \<Rightarrow> string) \<Rightarrow> ('a job_scheme) list \<Rightarrow> ('a job_scheme) list" where
  "removeDuplicateJobs toLowerCase jobs = removeDuplicateJobs_loop toLowerCase jobs {} []"

text \<open>Lower-casing of the ASCII letters, used where a concrete \<open>toLowerCase\<close> is needed.\<close>

definition ascii_lower_char :: "char \<Rightarrow> char" where
  "ascii_lower_char c =
     (let n = (of_char c :: nat) in if 65 \<le> n \<and> n \<le> 90 then char_of (n + 32) else c)"

definition ascii_toLowerCase :: "string \<Rightarrow> string" where
  "ascii_toLowerCase s = map ascii_lower_char s"

section \<open>Application adapters: \<open>AutomatedJobApplicant.applyToJob\<close>\<close>

text \<open>
  The applicant object: whether \<open>this.browser\<close> is set, and \<open>this.applicationResults\<close>.
\<close>

record applicant =
  browser :: bool
  applicationResults :: "obj list"

text \<open>
  What the browser session and the clock do is a parameter, threaded through a world
  \<open>'w\<close>. \<open>initialize\<close> catches its own exceptions: it gives the value it returns and
  whether \<open>this.browser\<close> is set afterwards. \<open>drive a job\<close> is the page-driving part of
  the adapter \<open>applyVia<a>\<close>, up to the probe for the confirmation marker: it gives the
  \<open>success\<close> flag or throws. \<open>toISOString_now\<close> is \<open>new Date().toISOString()\<close>.
\<close>

record 'w session =
  initialize :: "'w \<Rightarrow> (bool \<times> bool) \<times> 'w"
  drive :: "string \<Rightarrow> job \<Rightarrow> 'w \<Rightarrow> bool outcome \<times> 'w"
  toISOString_now :: "'w \<Rightarrow> string \<times> 'w"

text \<open>
  The six adapters \<open>applyViaWorkday\<close>, \<open>applyViaGreenhouse\<close>, \<open>applyViaLever\<close>,
  \<open>applyViaIndeed\<close>, \<open>applyViaLinkedIn\<close> and \<open>applyViaGenericForm\<close> end alike: they
  return the same object literal, and their \<open>catch\<close> rethrows.
\<close>

definition applyVia :: "'w session \<Rightarrow> string \<Rightarrow> job \<Rightarrow> 'w \<Rightarrow> obj outcome \<times> 'w" where
  "applyVia s a job w =
     (case drive s a job w of
        (Throws m, w1) \<Rightarrow> (Throws m, w1)
      | (Returns success, w1) \<Rightarrow>
          (let (ts, w2) = toISOString_now s w1
           in (Returns [(''success'', JBool success),
                        (''jobId'', JStr (job_id job)),
                        (''company'', JStr (name (company job))),
                        (''title'', JStr (title job)),
                        (''applicationUrl'', JStr (applicationUrl job)),
                        (''timestamp'', JStr ts)], w2)))"

text \<open>The \<open>switch\<close> of \<open>applyToJob\<close>: the adapter chosen for an application type.\<close>

definition adapter_for :: "string \<Rightarrow> string" where
  "adapter_for applicationType =
     (if applicationType = ''workday'' then ''Workday''
      else if applicationType = ''greenhouse'' then ''Greenhouse''
      else if applicationType = ''lever'' then ''Lever''
      else if applicationType = ''indeed'' then ''Indeed''
      else if applicationType = ''linkedin'' then ''LinkedIn''
      else ''GenericForm'')"

text \<open>The first block of \<open>applyToJob\<close>: initialise the browser when there is none.\<close>

definition ensure_browser :: "'w session \<Rightarrow> applicant \<Rightarrow> 'w \<Rightarrow> bool \<times> applicant \<times> 'w" where
  "ensure_browser s ap w =
     (if \<not> browser ap
      then (let ((initialized, browser_set), w1) = initialize s w
            in (initialized, ap\<lparr>browser := browser_set\<rparr>, w1))
      else (True, ap, w))"

text \<open>The \<open>try\<close> block of \<open>applyToJob\<close>.\<close>

definition applyToJob_try ::
  "'w session \<Rightarrow> applicant \<Rightarrow> job \<Rightarrow> 'w \<Rightarrow> obj outcome \<times> applicant \<times> 'w" where
  "applyToJob_try s ap job w =
     (let applicationType = detectApplicationSystem (applicationUrl job)
      in case applyVia s (adapter_for applicationType) job w of
           (Throws m, w1) \<Rightarrow> (Throws m, ap, w1)
         | (Returns result, w1) \<Rightarrow>
             (Returns result, ap\<lparr>applicationResults := applicationResults ap @ [result]\<rparr>, w1))"

text \<open>The \<open>catch\<close> block of \<open>applyToJob\<close>, for an exception with message \<open>m\<close>.\<close>

definition applyToJob_catch ::
  "'w session \<Rightarrow> applicant \<Rightarrow> job \<Rightarrow> string \<Rightarrow> 'w \<Rightarrow> obj outcome \<times> applicant \<times> 'w" where
  "applyToJob_catch s ap job m w =
     (let (ts, w1) = toISOString_now s w;
          result = [(''success'', JBool False),
                    (''jobId'', JStr (job_id job)),
                    (''company'', JStr (name (company job))),
                    (''title'', JStr (title job)),
                    (''applicationUrl'', JStr (applicationUrl job)),
                    (''error'', JStr m),
                    (''timestamp'', JStr ts)]
      in (Returns result, ap\<lparr>applicationResults := applicationResults ap @ [result]\<rparr>, w1))"

definition applyToJob ::
  "'w session \<Rightarrow> applicant \<Rightarrow> job \<Rightarrow> 'w \<Rightarrow> obj outcome \<times> applicant \<times> 'w" where
  "applyToJob s ap job w =
     (case ensure_browser s ap w of
        (False, ap1, w1) \<Rightarrow>
          (Returns [(''success'', JBool False),
                    (''jobId'', JStr (job_id job)),
                    (''error'', JStr ''Failed to initialize browser'')], ap1, w1)
      | (True, ap1, w1) \<Rightarrow>
          (case applyToJob_try s ap1 job w1 of
             (Throws m, ap2, w2) \<Rightarrow> applyToJob_catch s ap2 job m w2
           | (Returns result, ap2, w2) \<Rightarrow> (Returns result, ap2, w2)))"

text \<open>The fields of an ApplicationResult in the data model of the specification.\<close>

definition ApplicationResult_fields :: "string list" where
  "ApplicationResult_fields =
     [''jobId'', ''success'', ''company'', ''title'', ''applicationUrl'', ''timestamp'']"

section \<open>Batch application: the auto-apply routes\<close>

record batch =
  batch_id :: string
  userId :: string
  jobIds :: "string list"
  status :: string
  progress :: nat
  results :: "obj list"
  startTime :: int
  endTime :: "int option"

text \<open>
  The collaborators of the routes, threaded through a world \<open>'w\<close>:
  \<open>generateBatchId\<close> (the clock and \<open>Math.random\<close>), \<open>new Date()\<close>,
  \<open>credentialManager.hasCredentials\<close>, the applicant's run (\<open>getCredentials\<close>,
  \<open>buildUserProfile\<close>, \<open>new AutomatedJobApplicant\<close>, \<open>applyToJob\<close>, \<open>close\<close>; the result
  of \<open>applyToJob\<close> or an exception of any of them), \<open>new Application(..).save()\<close> giving
  the new \<open>application._id\<close>, \<open>User.findById\<close> giving \<open>profileComplete\<close> of the user
  found, and \<open>percent k n\<close>, the value of \<open>Math.round((k / n) * 100)\<close> in the
  floating-point arithmetic of the language for \<open>k\<close> other than \<open>n\<close>.
\<close>

record 'w collaborators =
  generateBatchId :: "'w \<Rightarrow> string \<times> 'w"
  Date_now :: "'w \<Rightarrow> int \<times> 'w"
  hasCredentials :: "string \<Rightarrow> string \<Rightarrow> 'w \<Rightarrow> bool outcome \<times> 'w"
  runApplicant :: "string \<Rightarrow> string \<Rightarrow> job \<Rightarrow> 'w \<Rightarrow> obj outcome \<times> 'w"
  Application_save :: "string \<Rightarrow> string \<Rightarrow> job \<Rightarrow> 'w \<Rightarrow> string outcome \<times> 'w"
  User_findById :: "string \<Rightarrow> 'w \<Rightarrow> bool option outcome \<times> 'w"
  percent :: "nat \<Rightarrow> nat \<Rightarrow> nat"

text \<open>
  The order of what the loop does: the start of the iteration for a job id, a call of
  \<open>saveBatchStatus\<close>, and the wait of the given number of milliseconds.
\<close>

datatype event = JobStarted string | BatchSaved | Delay nat

text \<open>
  The state of a run: the local \<open>batch\<close>, the store \<open>global.batchStatuses\<close>, the events
  so far and the world. The store of the source holds the batch object itself, so that a
  poller sees a pushed result before the next save; the model's store holds the batch as
  of its last save. The two agree after every save, and so at the end of a run.
\<close>

record 'w run =
  batch :: batch
  store :: "string \<rightharpoonup> batch"
  trace :: "event list"
  world :: 'w

definition saveBatchStatus :: "'w run \<Rightarrow> 'w run" where
  "saveBatchStatus st =
     st\<lparr>store := (store st)(batch_id (batch st) \<mapsto> batch st), trace := trace st @ [BatchSaved]\<rparr>"

definition getBatchStatus :: "string \<Rightarrow> (string \<rightharpoonup> batch) \<Rightarrow> batch option" where
  "getBatchStatus batchId statuses = statuses batchId"

text \<open>The entries pushed on \<open>batch.results\<close>.\<close>

definition failed_entry :: "string \<Rightarrow> jsval \<Rightarrow> obj" where
  "failed_entry jobId err = [(''jobId'', JStr jobId), (''success'', JBool False), (''error'', err)]"

definition applied_entry :: "string \<Rightarrow> string \<Rightarrow> obj" where
  "applied_entry jobId applicationId =
     [(''jobId'', JStr jobId), (''success'', JBool True), (''applicationId'', JStr applicationId)]"

text \<open>
  The inner \<open>try\<close> block of the loop: the entry it pushes, and whether it left the
  iteration by \<open>continue\<close> or ran to its end; or the exception it throws.
\<close>

datatype try_result = Continued obj | Completed obj

text \<open>
  \<open>Job.findById(jobId)\<close> in the routes file. The file binds \<open>express\<close>, \<open>router\<close>,
  \<open>auth\<close>, \<open>AutomatedJobApplicant\<close>, \<open>CredentialManager\<close>, \<open>Application\<close>, \<open>User\<close> and
  \<open>credentialManager\<close>, and no \<open>Job\<close>: evaluating the identifier throws a
  ReferenceError, whose message is \<open>Job is not defined\<close>.
\<close>

definition Job_findById :: "string \<Rightarrow> 'w \<Rightarrow> job option outcome \<times> 'w" where
  "Job_findById jobId w = (Throws ''Job is not defined'', w)"

definition try_job :: "'w collaborators \<Rightarrow> string \<Rightarrow> string \<Rightarrow> 'w \<Rightarrow> try_result outcome \<times> 'w" where
  "try_job c uid jobId w =
     (case Job_findById jobId w of
        (Throws m, w1) \<Rightarrow> (Throws m, w1)
      | (Returns None, w1) \<Rightarrow>
          (Returns (Continued (failed_entry jobId (JStr ''Job not found''))), w1)
      | (Returns (Some job), w1) \<Rightarrow>
          (let portal = determinePortal (applicationUrl job)
           in case hasCredentials c uid portal w1 of
                (Throws m, w2) \<Rightarrow> (Throws m, w2)
              | (Returns False, w2) \<Rightarrow>
                  (Returns (Continued (failed_entry jobId (JStr (''No credentials for '' @ portal)))), w2)
              | (Returns True, w2) \<Rightarrow>
                  (case runApplicant c uid portal job w2 of
                     (Throws m, w3) \<Rightarrow> (Throws m, w3)
                   | (Returns result, w3) \<Rightarrow>
                       if truthy (get_prop result ''success'')
                       then (case Application_save c uid portal job w3 of
                               (Throws m, w4) \<Rightarrow> (Throws m, w4)
                             | (Returns applicationId, w4) \<Rightarrow>
                                 (Returns (Completed (applied_entry jobId applicationId)), w4))
                       else (Returns (Completed (failed_entry jobId (get_prop result ''error''))), w3))))"

definition push_result :: "obj \<Rightarrow> 'w \<Rightarrow> 'w run \<Rightarrow> 'w run" where
  "push_result entry w st =
     st\<lparr>batch := (batch st)\<lparr>results := results (batch st) @ [entry]\<rparr>, world := w\<rparr>"

text \<open>
  \<open>Math.round((k / n) * 100)\<close>. For \<open>k = n\<close>, not zero, the quotient is 1, the product
  100 and the rounding 100, exactly; the other values are the parameter's.
\<close>

definition Math_round_percent :: "'w collaborators \<Rightarrow> nat \<Rightarrow> nat \<Rightarrow> nat" where
  "Math_round_percent c k n = (if k = n \<and> 0 < n then 100 else percent c k n)"

text \<open>The end of an iteration: progress, save, and the delay between applications.\<close>

definition after_job :: "'w collaborators \<Rightarrow> nat \<Rightarrow> nat \<Rightarrow> 'w run \<Rightarrow> 'w run" where
  "after_job c i n st =
     (let st1 = st\<lparr>batch := (batch st)\<lparr>progress := Math_round_percent c (i + 1) n\<rparr>\<rparr>;
          st2 = saveBatchStatus st1
      in st2\<lparr>trace := trace st2 @ [Delay 5000]\<rparr>)"

text \<open>
  The body of the \<open>for\<close> loop of \<open>processBatchApplications\<close> at index \<open>i\<close>; \<open>n\<close> is
  \<open>jobIds.length\<close>. After \<open>continue\<close> the end of the iteration is not run.
\<close>

definition batch_iteration ::
  "'w collaborators \<Rightarrow> string \<Rightarrow> nat \<Rightarrow> nat \<Rightarrow> string \<Rightarrow> 'w run \<Rightarrow> 'w run" where
  "batch_iteration c uid n i jobId st =
     (let st0 = st\<lparr>trace := trace st @ [JobStarted jobId]\<rparr>
      in case try_job c uid jobId (world st0) of
           (Returns (Continued entry), w) \<Rightarrow> push_result entry w st0
         | (Returns (Completed entry), w) \<Rightarrow> after_job c i n (push_result entry w st0)
         | (Throws m, w) \<Rightarrow> after_job c i n (push_result (failed_entry jobId (JStr m)) w st0))"

text \<open>The loop from index \<open>i\<close> on; the list is what is left of \<open>jobIds\<close> from \<open>i\<close>.\<close>

fun batch_loop :: "'w collaborators \<Rightarrow> string \<Rightarrow> nat \<Rightarrow> nat \<Rightarrow> string list \<Rightarrow> 'w run \<Rightarrow> 'w run" where
  "batch_loop c uid n i [] st = st"
| "batch_loop c uid n i (jobId # rest) st =
     batch_loop c uid n (i + 1) rest (batch_iteration c uid n i jobId st)"

text \<open>
  The two shapes of the entries of \<open>batch.results\<close> for a job id: a failure with its
  error, or a success with the id of the application record.
\<close>

definition batch_entry_shape :: "string \<Rightarrow> obj \<Rightarrow> bool" where
  "batch_entry_shape jobId r =
     (get_prop r ''jobId'' = JStr jobId
      \<and> (map fst r = [''jobId'', ''success'', ''error''] \<and> get_prop r ''success'' = JBool False
         \<or> map fst r = [''jobId'', ''success'', ''applicationId'']
            \<and> get_prop r ''success'' = JBool True))"

definition processBatchApplications ::
  "'w collaborators \<Rightarrow> string \<Rightarrow> string list \<Rightarrow> (string \<rightharpoonup> batch) \<Rightarrow> 'w \<Rightarrow> 'w run" where
  "processBatchApplications c uid ids statuses w =
     (let (bid, w1) = generateBatchId c w;
          (t0, w2) = Date_now c w1;
          b = \<lparr>batch_id = bid, userId = uid, jobIds = ids, status = ''processing'',
               progress = 0, results = [], startTime = t0, endTime = None\<rparr>;
          st1 = saveBatchStatus \<lparr>batch = b, store = statuses, trace = [], world = w2\<rparr>;
          st2 = batch_loop c uid (length ids) 0 ids st1;
          (t1, w3) = Date_now c (world st2);
          st3 = st2\<lparr>batch := (batch st2)\<lparr>status := ''completed'', endTime := Some t1\<rparr>, world := w3\<rparr>
      in saveBatchStatus st3)"

text \<open>
  \<open>router.post('/batch')\<close>. The body's \<open>jobIds\<close> is \<open>None\<close> when it is missing or not an
  array. \<open>BatchStarted status batchId\<close> is the response of a started batch. The response
  is sent before the batch runs; the store and the world after the run are given with it.
\<close>

datatype response = Status400 string | Status404 string | Status500 string | BatchStarted string string

definition post_batch ::
  "'w collaborators \<Rightarrow> string \<Rightarrow> string list option \<Rightarrow> (string \<rightharpoonup> batch) \<Rightarrow> 'w
     \<Rightarrow> response \<times> (string \<rightharpoonup> batch) \<times> 'w" where
  "post_batch c uid body statuses w =
     (case body of
        None \<Rightarrow> (Status400 ''Job IDs array is required'', statuses, w)
      | Some ids \<Rightarrow>
          if ids = [] then (Status400 ''Job IDs array is required'', statuses, w)
          else (case User_findById c uid w of
                  (Throws m, w1) \<Rightarrow>
                    (Status500 ''Server error while setting up batch application'', statuses, w1)
                | (Returns None, w1) \<Rightarrow> (Status404 ''User not found'', statuses, w1)
                | (Returns (Some profileComplete), w1) \<Rightarrow>
                    if \<not> profileComplete
                    then (Status400 ''Please complete your profile before applying to jobs'',
                          statuses, w1)
                    else (let (batchId, w2) = generateBatchId c w1;
                              st = processBatchApplications c uid ids statuses w2
                          in (BatchStarted ''success'' batchId, store st, world st))))"

section \<open>Credential vault: \<open>CredentialManager\<close>\<close>

type_synonym byte = "8 word"

text \<open>\<open>buf.toString('hex')\<close>: two lower-case hexadecimal digits a byte.\<close>

definition hex_digit :: "nat \<Rightarrow> char" where
  "hex_digit n = ''0123456789abcdef'' ! n"

definition to_hex :: "byte list \<Rightarrow> string" where
  "to_hex bs = concat (map (\<lambda>b. [hex_digit (unat b div 16), hex_digit (unat b mod 16)]) bs)"

definition hex_value :: "char \<Rightarrow> nat option" where
  "hex_value c =
     (let n = (of_char c :: nat)
      in if 48 \<le> n \<and> n \<le> 57 then Some (n - 48)
         else if 97 \<le> n \<and> n \<le> 102 then Some (n - 87)
         else if 65 \<le> n \<and> n \<le> 70 then Some (n - 55)
         else None)"

text \<open>
  \<open>Buffer.from(s, 'hex')\<close>: the bytes of the pairs of hexadecimal digits, up to the first
  pair that is not one.
\<close>

fun from_hex :: "string \<Rightarrow> byte list" where
  "from_hex (a # b # cs) =
     (case hex_value a of
        None \<Rightarrow> []
      | Some h \<Rightarrow> (case hex_value b of
                     None \<Rightarrow> []
                   | Some l \<Rightarrow> word_of_nat (16 * h + l) # from_hex cs))"
| "from_hex cs = []"

text \<open>\<open>s.split(c)\<close> for a one-character separator.\<close>

fun split :: "char \<Rightarrow> string \<Rightarrow> string list" where
  "split c [] = [[]]"
| "split c (x # xs) =
     (if x = c then [] # split c xs
      else (case split c xs of [] \<Rightarrow> [[x]] | p # ps \<Rightarrow> (x # p) # ps))"

text \<open>
  The cipher is a parameter: \<open>cipher key iv data\<close> is the output of
  \<open>createCipheriv('aes-256-cbc', key, iv)\<close> on the UTF-8 encoding of \<open>data\<close>,
  \<open>decipher key iv bytes\<close> the UTF-8 decoding of the output of \<open>createDecipheriv\<close>;
  either can throw. \<open>randomBytes n\<close> draws from the world.
\<close>

record 'w crypto =
  randomBytes :: "nat \<Rightarrow> 'w \<Rightarrow> byte list \<times> 'w"
  cipher :: "byte list \<Rightarrow> byte list \<Rightarrow> string \<Rightarrow> byte list outcome"
  decipher :: "byte list \<Rightarrow> byte list \<Rightarrow> byte list \<Rightarrow> string outcome"

record credentialManager =
  encryptionKey :: string

text \<open>
  The constructor. Its argument and the environment variable are \<open>None\<close> when undefined.
\<close>

definition new_CredentialManager :: "string option \<Rightarrow> string option \<Rightarrow> credentialManager outcome" where
  "new_CredentialManager arg env_key =
     (let k = (case arg of
                 None \<Rightarrow> env_key
               | Some a \<Rightarrow> if a = [] then env_key else Some a)
      in case k of
           None \<Rightarrow> Throws ''Encryption key is required for credential management''
         | Some key \<Rightarrow>
             if key = [] then Throws ''Encryption key is required for credential management''
             else if length (from_hex key) \<noteq> 32
             then Throws ''Encryption key must be 64 hex characters (32 bytes)''
             else Returns \<lparr>encryptionKey = key\<rparr>)"

text \<open>\<open>encrypt(data)\<close> for a string \<open>data\<close>: the empty string is the falsy one.\<close>

definition encrypt :: "'w crypto \<Rightarrow> credentialManager \<Rightarrow> string \<Rightarrow> 'w \<Rightarrow> jsval outcome \<times> 'w" where
  "encrypt cr cm data w =
     (if data = [] then (Returns JNull, w)
      else (let (iv, w1) = randomBytes cr 16 w
            in case cipher cr (from_hex (encryptionKey cm)) iv data of
                 Throws m \<Rightarrow> (Throws ''Failed to encrypt data'', w1)
               | Returns encrypted \<Rightarrow> (Returns (JStr (to_hex iv @ '':'' @ to_hex encrypted)), w1)))"

definition decrypt :: "'w crypto \<Rightarrow> credentialManager \<Rightarrow> string \<Rightarrow> jsval outcome" where
  "decrypt cr cm encryptedData =
     (if encryptedData = [] then Returns JNull
      else (let parts = split CHR '':'' encryptedData
            in if length parts \<noteq> 2 then Throws ''Failed to decrypt data''
               else (case decipher cr (from_hex (encryptionKey cm)) (from_hex (parts ! 0))
                            (from_hex (parts ! 1)) of
                       Throws m \<Rightarrow> Throws ''Failed to decrypt data''
                     | Returns decrypted \<Rightarrow> Returns (JStr decrypted))))"

text \<open>
  The assignment \<open>o[k] = v\<close>: an own property keeps its place, a new one goes last.
  The loops below assign in the order of \<open>Object.entries\<close>, so that the new object
  enumerates in the same order.
\<close>

fun obj_set :: "obj \<Rightarrow> string \<Rightarrow> jsval \<Rightarrow> obj" where
  "obj_set [] k v = [(k, v)]"
| "obj_set ((k', v') # ob) k v = (if k' = k then (k, v) # ob else (k', v') # obj_set ob k v)"

text \<open>The loop of \<open>storeCredentials\<close> over \<open>Object.entries(credentials)\<close>.\<close>

fun encrypt_fields ::
  "'w crypto \<Rightarrow> credentialManager \<Rightarrow> obj \<Rightarrow> obj \<Rightarrow> 'w \<Rightarrow> obj outcome \<times> 'w" where
  "encrypt_fields cr cm [] encryptedCredentials w = (Returns encryptedCredentials, w)"
| "encrypt_fields cr cm ((key, val) # entries) encryptedCredentials w =
     (case val of
        JStr s \<Rightarrow>
          (case encrypt cr cm s w of
             (Throws m, w1) \<Rightarrow> (Throws m, w1)
           | (Returns v, w1) \<Rightarrow> encrypt_fields cr cm entries (obj_set encryptedCredentials key v) w1)
      | _ \<Rightarrow> encrypt_fields cr cm entries (obj_set encryptedCredentials key val) w)"

text \<open>
  The \<open>Credential\<close> collection: the \<open>credentials\<close> of the document of a (user, portal)
  pair, stored as given. The schema types \<open>user\<close> as an ObjectId: a query with a user id
  that is not the 24 hexadecimal digits of one fails its cast and throws. The schema
  admits the portals of \<open>portal_enum\<close>; a new document of another portal fails
  validation.
\<close>

definition is_ObjectId :: "string \<Rightarrow> bool" where
  "is_ObjectId uid = (length uid = 24 \<and> list_all (\<lambda>c. hex_value c \<noteq> None) uid)"

type_synonym credential_db = "(string \<times> string) \<rightharpoonup> obj"

definition portal_enum :: "string list" where
  "portal_enum = [''linkedin'', ''indeed'', ''glassdoor'', ''workday'', ''greenhouse'', ''lever'', ''other'']"

definition storeCredentials ::
  "'w crypto \<Rightarrow> credentialManager \<Rightarrow> credential_db \<Rightarrow> string \<Rightarrow> string \<Rightarrow> obj \<Rightarrow> 'w
     \<Rightarrow> obj outcome \<times> credential_db \<times> 'w" where
  "storeCredentials cr cm db uid portal credentials w =
     (case encrypt_fields cr cm credentials [] w of
        (Throws m, w1) \<Rightarrow> (Throws (''Failed to store credentials for '' @ portal), db, w1)
      | (Returns encryptedCredentials, w1) \<Rightarrow>
          if \<not> is_ObjectId uid
          then (Throws (''Failed to store credentials for '' @ portal), db, w1)
          else (case db (uid, portal) of
                  Some credential \<Rightarrow>
                    (Returns encryptedCredentials, db((uid, portal) \<mapsto> encryptedCredentials), w1)
                | None \<Rightarrow>
                    if portal \<in> set portal_enum
                    then (Returns encryptedCredentials,
                          db((uid, portal) \<mapsto> encryptedCredentials), w1)
                    else (Throws (''Failed to store credentials for '' @ portal), db, w1)))"

text \<open>The loop of \<open>getCredentials\<close> over the stored entries.\<close>

fun decrypt_fields :: "'w crypto \<Rightarrow> credentialManager \<Rightarrow> obj \<Rightarrow> obj \<Rightarrow> obj outcome" where
  "decrypt_fields cr cm [] decryptedCredentials = Returns decryptedCredentials"
| "decrypt_fields cr cm ((key, val) # entries) decryptedCredentials =
     (case val of
        JStr s \<Rightarrow>
          if str_includes s '':''
          then (case decrypt cr cm s of
                  Throws m \<Rightarrow> Throws m
                | Returns v \<Rightarrow> decrypt_fields cr cm entries (obj_set decryptedCredentials key v))
          else decrypt_fields cr cm entries (obj_set decryptedCredentials key val)
      | _ \<Rightarrow> decrypt_fields cr cm entries (obj_set decryptedCredentials key val))"

definition getCredentials ::
  "'w crypto \<Rightarrow> credentialManager \<Rightarrow> credential_db \<Rightarrow> string \<Rightarrow> string \<Rightarrow> obj option outcome" where
  "getCredentials cr cm db uid portal =
     (if \<not> is_ObjectId uid then Throws (''Failed to retrieve credentials for '' @ portal)
      else (case db (uid, portal) of
              None \<Rightarrow> Returns None
            | Some credentials \<Rightarrow>
                (case decrypt_fields cr cm credentials [] of
                   Throws m \<Rightarrow> Throws (''Failed to retrieve credentials for '' @ portal)
                 | Returns decryptedCredentials \<Rightarrow> Returns (Some decryptedCredentials))))"

section \<open>Concrete collaborators\<close>

text \<open>
  Instances of the parameters on which the functions above can be evaluated. The world
  of \<open>demo_collaborators\<close> is the list of batch ids that \<open>generateBatchId\<close> will give.
\<close>

definition demo_job :: "string \<Rightarrow> job" where
  "demo_job jobId =
     \<lparr>job_id = jobId, title = ''Data Engineer'', company = \<lparr>name = ''Acme''\<rparr>,
      applicationUrl = ''https://jobs.lever.co/acme/'' @ jobId, publishedAt = None\<rparr>"

definition demo_collaborators :: "(string list) collaborators" where
  "demo_collaborators =
     \<lparr>generateBatchId = (\<lambda>w. case w of [] \<Rightarrow> ([], []) | x # xs \<Rightarrow> (x, xs)),
      Date_now = (\<lambda>w. (1700000000000, w)),
      hasCredentials = (\<lambda>uid portal w. (Returns True, w)),
      runApplicant = (\<lambda>uid portal job w.
         (Returns [(''success'', JBool (job_id job \<noteq> ''j3'')), (''jobId'', JStr (job_id job))], w)),
      Application_save = (\<lambda>uid portal job w. (Returns (''app-'' @ job_id job), w)),
      User_findById = (\<lambda>uid w. (Returns (Some True), w)),
      percent = (\<lambda>k n. (200 * k + n) div (2 * n))\<rparr>"

text \<open>A session whose browser starts and whose Lever adapter throws.\<close>

definition demo_session :: "nat session" where
  "demo_session =
     \<lparr>initialize = (\<lambda>w. ((True, True), w + 1)),
      drive = (\<lambda>a job w.
         if a = ''Lever'' then (Throws ''Navigation timeout of 30000 ms exceeded'', w + 1)
         else (Returns True, w + 1)),
      toISOString_now = (\<lambda>w. (''2024-01-01T00:00:00.000Z'', w + 1))\<rparr>"

text \<open>
  A toy cipher with the interface of the real one: it takes a key of 32 bytes and an
  initialization vector of 16 bytes and throws on any other; the ciphertext is the vector
  followed by the bytes of the text reversed. The random bytes count up.
\<close>

definition demo_crypto :: "nat crypto" where
  "demo_crypto =
     \<lparr>randomBytes = (\<lambda>n w. (replicate n (word_of_nat w), w + 1)),
      cipher = (\<lambda>key iv data.
         if length key \<noteq> 32 then Throws ''Invalid key length''
         else if length iv \<noteq> 16 then Throws ''Invalid initialization vector''
         else Returns (iv @ rev (map (\<lambda>c. word_of_nat (of_char c)) data))),
      decipher = (\<lambda>key iv bs.
         if length key \<noteq> 32 then Throws ''Invalid key length''
         else if length iv \<noteq> 16 then Throws ''Invalid initialization vector''
         else if take 16 bs \<noteq> iv then Throws ''bad decrypt''
         else Returns (rev (map (\<lambda>b. char_of (unat b)) (drop 16 bs))))\<rparr>"

definition demo_manager :: credentialManager where
  "demo_manager =
     \<lparr>encryptionKey = ''000102030405060708090a0b0c0d0e0f101112131415161718191a1b1c1d1e1f''\<rparr>"


text \<open>
  Two listings of different titles and companies whose keys in \<open>removeDuplicateJobs\<close>
  are the same string.
\<close>

definition colliding_listings :: "job list" where
  "colliding_listings =
     [\<lparr>job_id = ''a1'', title = ''Engineer-Data'', company = \<lparr>name = ''Acme''\<rparr>,
       applicationUrl = ''https://www.linkedin.com/jobs/view/1'', publishedAt = None\<rparr>,
      \<lparr>job_id = ''b7'', title = ''Engineer'', company = \<lparr>name = ''Data-Acme''\<rparr>,
       applicationUrl = ''https://www.indeed.com/viewjob?jk=7'', publishedAt = None\<rparr>]"



section \<open>Properties of the classification\<close>

lemma includes_iff: "str_includes s t \<longleftrightarrow> (\<exists>p q. s = p @ t @ q)"
proof (induction s)
  case Nil
  then show ?case by auto
next
  case (Cons c s)
  show ?case
  proof
    assume "str_includes (c # s) t"
    then consider "take (length t) (c # s) = t" | "str_includes s t" by auto
    then show "\<exists>p q. c # s = p @ t @ q"
    proof cases
      case 1
      then have "c # s = [] @ t @ drop (length t) (c # s)"
        by (metis append_Nil append_take_drop_id)
      then show ?thesis by blast
    next
      case 2
      then obtain p q where "s = p @ t @ q" using Cons.IH by blast
      then have "c # s = (c # p) @ t @ q" by simp
      then show ?thesis by blast
    qed
  next
    assume "\<exists>p q. c # s = p @ t @ q"
    then obtain p q where pq: "c # s = p @ t @ q" by blast
    show "str_includes (c # s) t"
    proof (cases p)
      case Nil
      then have "take (length t) (c # s) = t" using pq by simp
      then show ?thesis by simp
    next
      case (Cons a p')
      then have "s = p' @ t @ q" using pq by simp
      then show ?thesis using Cons.IH by auto
    qed
  qed
qed

lemma determinePortal_detect:
  "determinePortal url =
     (if detectApplicationSystem url \<noteq> ''generic'' then detectApplicationSystem url
      else if str_includes url ''glassdoor.com'' then ''glassdoor'' else ''other'')"
  by (simp add: determinePortal_def detectApplicationSystem_def)

text \<open>
  C7. The classification of the application adapters, \<open>detectApplicationSystem\<close>, is a
  function of the URL string alone, defined on every string: its value is one of the six
  kinds; a URL in which \<open>myworkdayjobs.com\<close> occurs is classified as workday; a URL in
  which none of the known domain fragments occurs is classified as generic.
\<close>

theorem detectApplicationSystem_total_deterministic:
  "detectApplicationSystem url \<in> set portal_kinds
   \<and> ((\<exists>p q. url = p @ ''myworkdayjobs.com'' @ q) \<longrightarrow> detectApplicationSystem url = ''workday'')
   \<and> ((\<forall>f \<in> set known_fragments. \<not> (\<exists>p q. url = p @ f @ q))
        \<longrightarrow> detectApplicationSystem url = ''generic'')"
  unfolding includes_iff[symmetric]
  by (simp add: detectApplicationSystem_def portal_kinds_def known_fragments_def)

theorem detectApplicationSystem_witness:
  "detectApplicationSystem ''https://acme.wd5.myworkdayjobs.com/careers/job/42'' = ''workday''
   \<and> detectApplicationSystem ''https://example.org/careers/7'' = ''generic''"
proof -
  have a: "\<exists>p q. ''https://acme.wd5.myworkdayjobs.com/careers/job/42'' = p @ ''myworkdayjobs.com'' @ q"
    unfolding includes_iff[symmetric] by simp
  have b: "\<forall>f \<in> set known_fragments. \<not> (\<exists>p q. ''https://example.org/careers/7'' = p @ f @ q)"
    unfolding includes_iff[symmetric] by (simp add: known_fragments_def)
  show ?thesis
    using detectApplicationSystem_total_deterministic[of "''https://acme.wd5.myworkdayjobs.com/careers/job/42''"]
      detectApplicationSystem_total_deterministic[of "''https://example.org/careers/7''"] a b
    by blast
qed

section \<open>Properties of \<open>applyToJob\<close>\<close>

lemma ensure_browser_results:
  "ensure_browser s ap w = (ok, ap1, w1) \<Longrightarrow> applicationResults ap1 = applicationResults ap"
  by (auto simp: ensure_browser_def split: if_splits prod.splits)

lemma applyToJob_caught:
  assumes e: "ensure_browser s ap w = (True, ap1, w1)"
    and d: "drive s (adapter_for (detectApplicationSystem (applicationUrl job))) job w1 = (Throws m, w2)"
  shows "\<exists>r ap' w'. applyToJob s ap job w = (Returns r, ap', w')
            \<and> get_prop r ''success'' = JBool False \<and> get_prop r ''error'' = JStr m
            \<and> applicationResults ap' = applicationResults ap @ [r]"
proof -
  have t: "applyToJob_try s ap1 job w1 = (Throws m, ap1, w2)"
    using d by (simp add: applyToJob_try_def applyVia_def)
  obtain ts w3 where n: "toISOString_now s w2 = (ts, w3)" by (cases "toISOString_now s w2")
  have r: "applicationResults ap1 = applicationResults ap"
    using e by (rule ensure_browser_results)
  show ?thesis
    using e t n r by (simp add: applyToJob_def applyToJob_catch_def get_prop_def Let_def)
qed

lemma applyToJob_returns: "\<exists>r ap' w'. applyToJob s ap job w = (Returns r, ap', w')"
proof -
  obtain ok ap1 w1 where e: "ensure_browser s ap w = (ok, ap1, w1)"
    by (cases "ensure_browser s ap w")
  show ?thesis
  proof (cases ok)
    case False
    then show ?thesis using e by (simp add: applyToJob_def)
  next
    case True
    obtain x ap2 w2 where t: "applyToJob_try s ap1 job w1 = (x, ap2, w2)"
      by (cases "applyToJob_try s ap1 job w1")
    show ?thesis
    proof (cases x)
      case (Throws m)
      obtain ts w3 where n: "toISOString_now s w2 = (ts, w3)" by (cases "toISOString_now s w2")
      show ?thesis using e True t Throws n by (simp add: applyToJob_def applyToJob_catch_def Let_def)
    next
      case (Returns r)
      then show ?thesis using e True t by (simp add: applyToJob_def)
    qed
  qed
qed

text \<open>
  C8. For every job, \<open>applyToJob\<close> returns a result and lets no exception escape; when
  the adapter selected for the job's URL throws, the value returned is a failed result
  whose \<open>error\<close> is the message of the exception, and it is the result appended to
  \<open>applicationResults\<close>.
\<close>

theorem applyToJob_exception_becomes_failed_result:
  "(\<exists>r ap' w'. applyToJob s ap job w = (Returns r, ap', w'))
   \<and> (\<forall>ap1 w1 m w2.
         ensure_browser s ap w = (True, ap1, w1)
         \<and> drive s (adapter_for (detectApplicationSystem (applicationUrl job))) job w1 = (Throws m, w2)
        \<longrightarrow> (\<exists>r ap' w'. applyToJob s ap job w = (Returns r, ap', w')
              \<and> get_prop r ''success'' = JBool False \<and> get_prop r ''error'' = JStr m
              \<and> applicationResults ap' = applicationResults ap @ [r]))"
proof (intro conjI allI impI)
  show "\<exists>r ap' w'. applyToJob s ap job w = (Returns r, ap', w')"
    by (rule applyToJob_returns)
next
  fix ap1 w1 m w2
  assume h: "ensure_browser s ap w = (True, ap1, w1)
         \<and> drive s (adapter_for (detectApplicationSystem (applicationUrl job))) job w1 = (Throws m, w2)"
  show "\<exists>r ap' w'. applyToJob s ap job w = (Returns r, ap', w')
              \<and> get_prop r ''success'' = JBool False \<and> get_prop r ''error'' = JStr m
              \<and> applicationResults ap' = applicationResults ap @ [r]"
    using h applyToJob_caught[of s ap w ap1 w1 job m w2] by simp
qed

theorem applyToJob_exception_witness:
  "ensure_browser demo_session \<lparr>browser = False, applicationResults = []\<rparr> 0
      = (True, \<lparr>browser = True, applicationResults = []\<rparr>, 1)
   \<and> drive demo_session (adapter_for (detectApplicationSystem (applicationUrl (demo_job ''j1''))))
        (demo_job ''j1'') 1 = (Throws ''Navigation timeout of 30000 ms exceeded'', 2)
   \<and> (\<exists>r ap' w'. applyToJob demo_session \<lparr>browser = False, applicationResults = []\<rparr> (demo_job ''j1'') 0
                     = (Returns r, ap', w')
         \<and> get_prop r ''success'' = JBool False
         \<and> get_prop r ''error'' = JStr ''Navigation timeout of 30000 ms exceeded''
         \<and> applicationResults ap' = [] @ [r])"
proof -
  have a: "ensure_browser demo_session \<lparr>browser = False, applicationResults = []\<rparr> 0
      = (True, \<lparr>browser = True, applicationResults = []\<rparr>, 1)"
    by (simp add: ensure_browser_def demo_session_def)
  have b: "drive demo_session (adapter_for (detectApplicationSystem (applicationUrl (demo_job ''j1''))))
        (demo_job ''j1'') 1 = (Throws ''Navigation timeout of 30000 ms exceeded'', 2)"
    by (simp add: demo_session_def demo_job_def detectApplicationSystem_def adapter_for_def)
  show ?thesis
    using applyToJob_exception_becomes_failed_result[of demo_session "\<lparr>browser = False, applicationResults = []\<rparr>" "demo_job ''j1''" 0] a b
    by auto
qed

section \<open>Properties of the recency filter\<close>






section \<open>Properties of the deduplication\<close>

lemma removeDuplicateJobs_loop_inv:
  "seen = dedup_key lc ` set acc \<Longrightarrow> distinct (map (dedup_key lc) acc) \<Longrightarrow>
   \<exists>rest. removeDuplicateJobs_loop lc jobs seen acc = acc @ rest
      \<and> subseq rest jobs
      \<and> distinct (map (dedup_key lc) (acc @ rest))
      \<and> dedup_key lc ` set (acc @ rest) = dedup_key lc ` (set acc \<union> set jobs)
      \<and> (\<forall>j \<in> set rest. find (\<lambda>j'. dedup_key lc j' = dedup_key lc j) jobs = Some j)"
proof (induction jobs arbitrary: seen acc)
  case Nil
  then show ?case by simp
next
  case (Cons job jobs)
  show ?case
  proof (cases "dedup_key lc job \<in> seen")
    case True
    from Cons.IH[OF Cons.prems] obtain rest where r1:
      "removeDuplicateJobs_loop lc jobs seen acc = acc @ rest" and r2: "subseq rest jobs"
      and r3: "distinct (map (dedup_key lc) (acc @ rest))"
      and r4: "dedup_key lc ` set (acc @ rest) = dedup_key lc ` (set acc \<union> set jobs)"
      and r5: "\<forall>j \<in> set rest. find (\<lambda>j'. dedup_key lc j' = dedup_key lc j) jobs = Some j"
      by blast
    have d: "dedup_key lc ` set acc \<inter> dedup_key lc ` set rest = {}" using r3 by simp
    have m: "dedup_key lc job \<in> dedup_key lc ` set acc" using True Cons.prems(1) by simp
    have nk: "\<forall>j \<in> set rest. dedup_key lc j \<noteq> dedup_key lc job"
    proof
      fix j assume "j \<in> set rest"
      then have "dedup_key lc j \<in> dedup_key lc ` set rest" by (rule imageI)
      then have "dedup_key lc j \<notin> dedup_key lc ` set acc" using d by (metis disjoint_iff)
      then show "dedup_key lc j \<noteq> dedup_key lc job" using m by metis
    qed
    have g1: "removeDuplicateJobs_loop lc (job # jobs) seen acc = acc @ rest"
      using True r1 by simp
    have g2: "subseq rest (job # jobs)" using r2 by (rule list_emb_Cons)
    have "dedup_key lc ` (set acc \<union> set (job # jobs)) = dedup_key lc ` (set acc \<union> set jobs)"
      using m by (simp add: image_Un insert_absorb Un_absorb1 Un_assoc[symmetric])
    then have g4: "dedup_key lc ` set (acc @ rest) = dedup_key lc ` (set acc \<union> set (job # jobs))"
      using r4 by simp
    have g5: "\<forall>j \<in> set rest. find (\<lambda>j'. dedup_key lc j' = dedup_key lc j) (job # jobs) = Some j"
    proof
      fix j assume j: "j \<in> set rest"
      then have "dedup_key lc job \<noteq> dedup_key lc j" using nk by metis
      then show "find (\<lambda>j'. dedup_key lc j' = dedup_key lc j) (job # jobs) = Some j"
        using r5 j by simp
    qed
    show ?thesis
      by (intro exI[of _ rest] conjI) (fact g1 g2 r3 g4 g5)+
  next
    case False
    let ?seen = "insert (dedup_key lc job) seen"
    let ?acc = "acc @ [job]"
    have p1: "?seen = dedup_key lc ` set ?acc" using Cons.prems(1) by simp
    have p2: "distinct (map (dedup_key lc) ?acc)" using Cons.prems False by simp
    from Cons.IH[OF p1 p2] obtain rest where r1:
      "removeDuplicateJobs_loop lc jobs ?seen ?acc = ?acc @ rest" and r2: "subseq rest jobs"
      and r3: "distinct (map (dedup_key lc) (?acc @ rest))"
      and r4: "dedup_key lc ` set (?acc @ rest) = dedup_key lc ` (set ?acc \<union> set jobs)"
      and r5: "\<forall>j \<in> set rest. find (\<lambda>j'. dedup_key lc j' = dedup_key lc j) jobs = Some j"
      by blast
    have nk: "dedup_key lc job \<notin> dedup_key lc ` set rest"
      using r3 by simp
    have g1: "removeDuplicateJobs_loop lc (job # jobs) seen acc = acc @ (job # rest)"
      using False r1 by simp
    have g2: "subseq (job # rest) (job # jobs)" using r2 by simp
    have g3: "distinct (map (dedup_key lc) (acc @ (job # rest)))" using r3 by simp
    have g4: "dedup_key lc ` set (acc @ (job # rest)) = dedup_key lc ` (set acc \<union> set (job # jobs))"
      using r4 by simp
    have g5: "\<forall>j \<in> set (job # rest). find (\<lambda>j'. dedup_key lc j' = dedup_key lc j) (job # jobs) = Some j"
    proof
      fix j assume j: "j \<in> set (job # rest)"
      show "find (\<lambda>j'. dedup_key lc j' = dedup_key lc j) (job # jobs) = Some j"
      proof (cases "j = job")
        case True
        then show ?thesis by simp
      next
        case False
        then have jr: "j \<in> set rest" using j by simp
        then have "dedup_key lc job \<noteq> dedup_key lc j" using nk by (metis imageI)
        then show ?thesis using r5 jr by simp
      qed
    qed
    show ?thesis
      by (intro exI[of _ "job # rest"] conjI) (fact g1 g2 g3 g4 g5)+
  qed
qed

text \<open>
  In terms of the key that the function computes, the result has no key twice and the
  keys of the input, each entry is the first listing of the input with its key, and the
  entries stand in input order.
\<close>

lemma removeDuplicateJobs_one_per_key:
  "distinct (map (dedup_key lc) (removeDuplicateJobs lc jobs))
   \<and> set (map (dedup_key lc) (removeDuplicateJobs lc jobs)) = set (map (dedup_key lc) jobs)
   \<and> (\<forall>j \<in> set (removeDuplicateJobs lc jobs).
         find (\<lambda>j'. dedup_key lc j' = dedup_key lc j) jobs = Some j)
   \<and> subseq (removeDuplicateJobs lc jobs) jobs"
proof -
  obtain rest where r: "removeDuplicateJobs_loop lc jobs {} [] = [] @ rest"
      "subseq rest jobs" "distinct (map (dedup_key lc) ([] @ rest))"
      "dedup_key lc ` set ([] @ rest) = dedup_key lc ` (set [] \<union> set jobs)"
      "\<forall>j \<in> set rest. find (\<lambda>j'. dedup_key lc j' = dedup_key lc j) jobs = Some j"
    using removeDuplicateJobs_loop_inv[of "{}" lc "[]" jobs] by auto
  have e: "removeDuplicateJobs lc jobs = rest" using r(1) by (simp add: removeDuplicateJobs_def)
  show ?thesis unfolding e using r(2-5) by simp
qed

text \<open>
  The key against the pair it is made of: listings of the same lower-cased title and
  company name have the same key, and the converse holds when the lower-cased titles have
  no hyphen in them.
\<close>

lemma hyphen_join_inject:
  assumes "a @ ''-'' @ b = a' @ ''-'' @ b'" and "CHR ''-'' \<notin> set a" and "CHR ''-'' \<notin> set a'"
  shows "a = a' \<and> b = b'"
proof -
  have t: "takeWhile (\<lambda>c. c \<noteq> CHR ''-'') (xs @ CHR ''-'' # ys) = xs"
    if "CHR ''-'' \<notin> set xs" for xs ys :: string
    using that by (induction xs) auto
  have "takeWhile (\<lambda>c. c \<noteq> CHR ''-'') (a @ CHR ''-'' # b) = a"
    using assms(2) by (rule t)
  moreover have "takeWhile (\<lambda>c. c \<noteq> CHR ''-'') (a' @ CHR ''-'' # b') = a'"
    using assms(3) by (rule t)
  ultimately have "a = a'" using assms(1) by simp
  then show ?thesis using assms(1) by simp
qed

lemma dedup_key_pair:
  "(lc (title j), lc (name (company j))) = (lc (title j'), lc (name (company j')))
     \<Longrightarrow> dedup_key lc j = dedup_key lc j'"
  by (simp add: dedup_key_def)

lemma dedup_key_eq_iff_pair:
  assumes "CHR ''-'' \<notin> set (lc (title j))" and "CHR ''-'' \<notin> set (lc (title j'))"
  shows "dedup_key lc j = dedup_key lc j'
     \<longleftrightarrow> (lc (title j), lc (name (company j))) = (lc (title j'), lc (name (company j')))"
  using assms hyphen_join_inject[of "lc (title j)" "lc (name (company j))"
      "lc (title j')" "lc (name (company j'))"]
  by (auto simp: dedup_key_def)

text \<open>
  On lists whose lower-cased titles have no hyphen in them, the result has exactly one
  entry for each case-insensitive (title, company name) pair of the input, the first
  listing of the input with that pair.
\<close>

lemma removeDuplicateJobs_one_per_pair:
  assumes nh: "\<forall>j \<in> set jobs. CHR ''-'' \<notin> set (lc (title j))"
  shows "distinct (map (\<lambda>j. (lc (title j), lc (name (company j)))) (removeDuplicateJobs lc jobs))
   \<and> set (map (\<lambda>j. (lc (title j), lc (name (company j)))) (removeDuplicateJobs lc jobs))
       = set (map (\<lambda>j. (lc (title j), lc (name (company j)))) jobs)
   \<and> (\<forall>j \<in> set (removeDuplicateJobs lc jobs).
         find (\<lambda>j'. (lc (title j'), lc (name (company j'))) = (lc (title j), lc (name (company j)))) jobs
           = Some j)"
proof -
  let ?out = "removeDuplicateJobs lc jobs"
  let ?pair = "\<lambda>j. (lc (title j), lc (name (company j)))"
  have k1: "distinct (map (dedup_key lc) ?out)"
    and k2: "set (map (dedup_key lc) ?out) = set (map (dedup_key lc) jobs)"
    and k3: "\<forall>j \<in> set ?out. find (\<lambda>j'. dedup_key lc j' = dedup_key lc j) jobs = Some j"
    and k4: "subseq ?out jobs"
    using removeDuplicateJobs_one_per_key[of lc jobs] by blast+
  have sub: "set ?out \<subseteq> set jobs"
  proof
    fix x assume "x \<in> set ?out"
    then show "x \<in> set jobs" using k4 by (auto elim: list_emb_set)
  qed
  have inj: "inj_on ?pair (set ?out)"
  proof (rule inj_onI)
    fix x y assume "x \<in> set ?out" "y \<in> set ?out" "?pair x = ?pair y"
    then have "dedup_key lc x = dedup_key lc y" using dedup_key_pair by blast
    then show "x = y"
      using k1 \<open>x \<in> set ?out\<close> \<open>y \<in> set ?out\<close> by (meson distinct_map inj_onD)
  qed
  have d: "distinct ?out" using k1 by (simp add: distinct_map)
  have g1: "distinct (map ?pair ?out)" using d inj by (simp add: distinct_map)
  have g2: "set (map ?pair ?out) = set (map ?pair jobs)"
  proof
    show "set (map ?pair ?out) \<subseteq> set (map ?pair jobs)" using sub by auto
  next
    show "set (map ?pair jobs) \<subseteq> set (map ?pair ?out)"
    proof
      fix p assume "p \<in> set (map ?pair jobs)"
      then obtain j where j: "j \<in> set jobs" "p = ?pair j" by auto
      then have "dedup_key lc j \<in> set (map (dedup_key lc) ?out)" using k2 by auto
      then obtain q where q: "q \<in> set ?out" "dedup_key lc q = dedup_key lc j" by auto
      have "q \<in> set jobs" using q(1) sub by blast
      then have "?pair q = ?pair j"
        using dedup_key_eq_iff_pair[of lc q j] nh j(1) q(2) by blast
      then have "p = ?pair q" using j(2) by simp
      then have "p \<in> ?pair ` set ?out" using q(1) by (rule image_eqI)
      then show "p \<in> set (map ?pair ?out)" by simp
    qed
  qed
  have g3: "\<forall>j \<in> set ?out. find (\<lambda>j'. ?pair j' = ?pair j) jobs = Some j"
  proof
    fix j assume j: "j \<in> set ?out"
    then have jj: "j \<in> set jobs" using sub by blast
    have "find (\<lambda>j'. ?pair j' = ?pair j) jobs = find (\<lambda>j'. dedup_key lc j' = dedup_key lc j) jobs"
    proof (rule find_cong)
      show "jobs = jobs" by simp
    next
      fix x assume "x \<in> set jobs"
      then show "(?pair x = ?pair j) = (dedup_key lc x = dedup_key lc j)"
        using dedup_key_eq_iff_pair[of lc x j] nh jj by blast
    qed
    then show "find (\<lambda>j'. ?pair j' = ?pair j) jobs = Some j" using k3 j by simp
  qed
  show ?thesis using g1 g2 g3 by blast
qed

text \<open>
  C5. Two listings of different titles and different companies, \<open>Engineer-Data\<close> at
  \<open>Acme\<close> and \<open>Engineer\<close> at \<open>Data-Acme\<close>, have the one key \<open>engineer-data-acme\<close>: the
  result has a single entry for the two case-insensitive (title, company name) pairs.
\<close>

theorem removeDuplicateJobs_merges_distinct_pairs:
  "(ascii_toLowerCase (title (colliding_listings ! 0)),
    ascii_toLowerCase (name (company (colliding_listings ! 0))))
     \<noteq> (ascii_toLowerCase (title (colliding_listings ! 1)),
         ascii_toLowerCase (name (company (colliding_listings ! 1))))
   \<and> dedup_key ascii_toLowerCase (colliding_listings ! 0) = ''engineer-data-acme''
   \<and> dedup_key ascii_toLowerCase (colliding_listings ! 1) = ''engineer-data-acme''
   \<and> removeDuplicateJobs ascii_toLowerCase colliding_listings = [colliding_listings ! 0]"
  by code_simp

section \<open>Properties of the batch\<close>

lemma failed_entry_shape: "batch_entry_shape jobId (failed_entry jobId e)"
  by (simp add: batch_entry_shape_def failed_entry_def get_prop_def)

lemma applied_entry_shape: "batch_entry_shape jobId (applied_entry jobId a)"
  by (simp add: batch_entry_shape_def applied_entry_def get_prop_def)

lemma try_job_shape:
  "try_job c uid jobId w = (Returns tr, w') \<Longrightarrow>
     batch_entry_shape jobId (case tr of Continued e \<Rightarrow> e | Completed e \<Rightarrow> e)"
  by (auto simp: try_job_def Job_findById_def Let_def failed_entry_shape applied_entry_shape
      split: prod.splits outcome.splits option.splits bool.splits if_splits)

lemma after_job_results [simp]: "results (batch (after_job c i n st)) = results (batch st)"
  by (simp add: after_job_def saveBatchStatus_def Let_def)

lemma after_job_batch_id [simp]: "batch_id (batch (after_job c i n st)) = batch_id (batch st)"
  by (simp add: after_job_def saveBatchStatus_def Let_def)

lemma after_job_status [simp]: "status (batch (after_job c i n st)) = status (batch st)"
  by (simp add: after_job_def saveBatchStatus_def Let_def)

lemma after_job_progress [simp]:
  "progress (batch (after_job c i n st)) = Math_round_percent c (i + 1) n"
  by (simp add: after_job_def saveBatchStatus_def Let_def)

lemma after_job_store:
  "k \<noteq> batch_id (batch st) \<Longrightarrow> store (after_job c i n st) k = store st k"
  by (simp add: after_job_def saveBatchStatus_def Let_def)

lemma push_result_simps [simp]:
  "results (batch (push_result e w st)) = results (batch st) @ [e]"
  "batch_id (batch (push_result e w st)) = batch_id (batch st)"
  "status (batch (push_result e w st)) = status (batch st)"
  "progress (batch (push_result e w st)) = progress (batch st)"
  "store (push_result e w st) = store st"
  by (simp_all add: push_result_def)

lemma batch_iteration_results:
  "\<exists>r. results (batch (batch_iteration c uid n i jobId st)) = results (batch st) @ [r]
       \<and> batch_entry_shape jobId r"
proof -
  let ?w = "world (st\<lparr>trace := trace st @ [JobStarted jobId]\<rparr>)"
  obtain x w' where t: "try_job c uid jobId ?w = (x, w')" by (cases "try_job c uid jobId ?w")
  show ?thesis
  proof (cases x)
    case (Throws m)
    then show ?thesis using t
      by (simp add: batch_iteration_def Let_def failed_entry_shape)
  next
    case (Returns tr)
    then have sh: "batch_entry_shape jobId (case tr of Continued e \<Rightarrow> e | Completed e \<Rightarrow> e)"
      using try_job_shape[of c uid jobId ?w tr w'] t by simp
    show ?thesis using t Returns sh
      by (cases tr) (simp_all add: batch_iteration_def Let_def)
  qed
qed

lemma batch_iteration_batch_id [simp]:
  "batch_id (batch (batch_iteration c uid n i jobId st)) = batch_id (batch st)"
  by (simp add: batch_iteration_def Let_def split: prod.splits outcome.splits try_result.splits)

lemma batch_iteration_status [simp]:
  "status (batch (batch_iteration c uid n i jobId st)) = status (batch st)"
  by (simp add: batch_iteration_def Let_def split: prod.splits outcome.splits try_result.splits)

lemma batch_iteration_store:
  "k \<noteq> batch_id (batch st) \<Longrightarrow> store (batch_iteration c uid n i jobId st) k = store st k"
  by (simp add: batch_iteration_def Let_def after_job_store
      split: prod.splits outcome.splits try_result.splits)

lemma batch_loop_results:
  "\<exists>new. results (batch (batch_loop c uid n i ids st)) = results (batch st) @ new
       \<and> list_all2 batch_entry_shape ids new"
proof (induction ids arbitrary: i st)
  case Nil
  then show ?case by simp
next
  case (Cons jobId rest)
  obtain r where r: "results (batch (batch_iteration c uid n i jobId st)) = results (batch st) @ [r]"
    "batch_entry_shape jobId r"
    using batch_iteration_results by blast
  obtain new where n: "results (batch (batch_loop c uid n (i + 1) rest (batch_iteration c uid n i jobId st)))
      = results (batch (batch_iteration c uid n i jobId st)) @ new" "list_all2 batch_entry_shape rest new"
    using Cons.IH by blast
  have "results (batch (batch_loop c uid n i (jobId # rest) st)) = results (batch st) @ (r # new)"
    using r(1) n(1) by simp
  moreover have "list_all2 batch_entry_shape (jobId # rest) (r # new)"
    using r(2) n(2) by simp
  ultimately show ?case by blast
qed

lemma batch_loop_batch_id [simp]:
  "batch_id (batch (batch_loop c uid n i ids st)) = batch_id (batch st)"
  by (induction ids arbitrary: i st) simp_all

lemma batch_loop_status [simp]:
  "status (batch (batch_loop c uid n i ids st)) = status (batch st)"
  by (induction ids arbitrary: i st) simp_all

lemma batch_loop_store:
  "k \<noteq> batch_id (batch st) \<Longrightarrow> store (batch_loop c uid n i ids st) k = store st k"
  by (induction ids arbitrary: i st) (simp_all add: batch_iteration_store)

lemma batch_loop_append:
  "batch_loop c uid n i (xs @ ys) st = batch_loop c uid n (i + length xs) ys (batch_loop c uid n i xs st)"
  by (induction xs arbitrary: i st) simp_all




text \<open>
  What holds of every batch: one result for each job id, in the order of the ids, each of
  one of the two shapes; the final status is completed, and the final state is the one
  stored under the id of the batch; no other key of the store changes.
\<close>

lemma processBatchApplications_results:
  "list_all2 batch_entry_shape ids (results (batch (processBatchApplications c uid ids statuses w)))"
proof -
  obtain bid w1 where g: "generateBatchId c w = (bid, w1)" by (cases "generateBatchId c w")
  obtain t0 w2 where d: "Date_now c w1 = (t0, w2)" by (cases "Date_now c w1")
  let ?b = "\<lparr>batch_id = bid, userId = uid, jobIds = ids, status = ''processing'',
               progress = 0, results = [], startTime = t0, endTime = None\<rparr>"
  let ?st1 = "saveBatchStatus \<lparr>batch = ?b, store = statuses, trace = [], world = w2\<rparr>"
  let ?st2 = "batch_loop c uid (length ids) 0 ids ?st1"
  obtain new where n: "results (batch ?st2) = results (batch ?st1) @ new"
    "list_all2 batch_entry_shape ids new"
    using batch_loop_results by blast
  have "results (batch ?st1) = []" by (simp add: saveBatchStatus_def)
  then have "results (batch ?st2) = new" using n(1) by simp
  then show ?thesis
    using g d n(2)
    by (simp add: processBatchApplications_def Let_def saveBatchStatus_def split: prod.splits)
qed

lemma processBatchApplications_completed:
  "status (batch (processBatchApplications c uid ids statuses w)) = ''completed''
   \<and> batch_id (batch (processBatchApplications c uid ids statuses w)) = fst (generateBatchId c w)
   \<and> store (processBatchApplications c uid ids statuses w)
        (batch_id (batch (processBatchApplications c uid ids statuses w)))
      = Some (batch (processBatchApplications c uid ids statuses w))"
  by (simp add: processBatchApplications_def Let_def saveBatchStatus_def split: prod.splits)

lemma processBatchApplications_store_other:
  assumes "k \<noteq> fst (generateBatchId c w)"
  shows "store (processBatchApplications c uid ids statuses w) k = statuses k"
proof -
  obtain bid w1 where g: "generateBatchId c w = (bid, w1)" by (cases "generateBatchId c w")
  obtain t0 w2 where d: "Date_now c w1 = (t0, w2)" by (cases "Date_now c w1")
  let ?b = "\<lparr>batch_id = bid, userId = uid, jobIds = ids, status = ''processing'',
               progress = 0, results = [], startTime = t0, endTime = None\<rparr>"
  let ?st1 = "saveBatchStatus \<lparr>batch = ?b, store = statuses, trace = [], world = w2\<rparr>"
  let ?st2 = "batch_loop c uid (length ids) 0 ids ?st1"
  have k: "k \<noteq> bid" using assms g by simp
  have b1: "batch_id (batch ?st1) = bid" by (simp add: saveBatchStatus_def)
  have "store ?st2 k = store ?st1 k" using k b1 by (simp add: batch_loop_store)
  also have "\<dots> = statuses k" using k by (simp add: saveBatchStatus_def)
  finally have s2: "store ?st2 k = statuses k" .
  have b2: "batch_id (batch ?st2) = bid" using b1 by simp
  show ?thesis
    using g d s2 b2 k
    by (simp add: processBatchApplications_def Let_def saveBatchStatus_def split: prod.splits)
qed






lemma post_batch_returned_id:
  assumes u: "User_findById c uid w = (Returns (Some True), w1)"
    and g: "generateBatchId c w1 = (batchId, w2)"
    and ne: "ids \<noteq> []"
  shows "\<exists>statuses' w'. post_batch c uid (Some ids) statuses w = (BatchStarted ''success'' batchId, statuses', w')
          \<and> (batchId \<noteq> fst (generateBatchId c w2) \<longrightarrow> getBatchStatus batchId statuses' = statuses batchId)
          \<and> getBatchStatus (fst (generateBatchId c w2)) statuses' \<noteq> None"
proof -
  let ?st = "processBatchApplications c uid ids statuses w2"
  have p: "post_batch c uid (Some ids) statuses w = (BatchStarted ''success'' batchId, store ?st, world ?st)"
    using u g ne by (simp add: post_batch_def Let_def)
  have a: "batchId \<noteq> fst (generateBatchId c w2) \<longrightarrow> getBatchStatus batchId (store ?st) = statuses batchId"
    by (simp add: getBatchStatus_def processBatchApplications_store_other)
  have c1: "batch_id (batch ?st) = fst (generateBatchId c w2)"
    using processBatchApplications_completed[of c uid ids statuses w2] by blast
  have c2: "store ?st (batch_id (batch ?st)) = Some (batch ?st)"
    using processBatchApplications_completed[of c uid ids statuses w2] by blast
  have b: "getBatchStatus (fst (generateBatchId c w2)) (store ?st) \<noteq> None"
    using c2 unfolding c1 by (simp add: getBatchStatus_def)
  show ?thesis using p a b by blast
qed



text \<open>
  C3. The route answers with the value of one call of \<open>generateBatchId\<close> and the batch
  is stored under the value of the next call (\<open>post_batch_returned_id\<close>). With two
  different values, the lookup of the id returned finds nothing, and the state of the
  batch is under the other id.
\<close>

theorem post_batch_returned_id_not_found:
  "fst (post_batch demo_collaborators ''u1'' (Some [''j1'']) Map.empty [''lq3k1ab12c'', ''lq3k1zx9qd''])
     = BatchStarted ''success'' ''lq3k1ab12c''
   \<and> getBatchStatus ''lq3k1ab12c''
        (fst (snd (post_batch demo_collaborators ''u1'' (Some [''j1'']) Map.empty [''lq3k1ab12c'', ''lq3k1zx9qd'']))) = None
   \<and> map_option batch_id (getBatchStatus ''lq3k1zx9qd''
        (fst (snd (post_batch demo_collaborators ''u1'' (Some [''j1'']) Map.empty [''lq3k1ab12c'', ''lq3k1zx9qd'']))))
       = Some ''lq3k1zx9qd''"
  by code_simp



lemma applyToJob_fields:
  assumes e: "ensure_browser s ap w = (True, ap1, w1)"
    and a: "applyToJob s ap job w = (Returns r, ap', w')"
  shows "(\<forall>f \<in> set ApplicationResult_fields. has_key r f)
         \<and> applicationResults ap' = applicationResults ap @ [r]
         \<and> (\<forall>m w2. drive s (adapter_for (detectApplicationSystem (applicationUrl job))) job w1
                      = (Throws m, w2) \<longrightarrow> has_key r ''error'')"
proof -
  have r: "applicationResults ap1 = applicationResults ap"
    using e by (rule ensure_browser_results)
  obtain x w2 where d: "drive s (adapter_for (detectApplicationSystem (applicationUrl job))) job w1 = (x, w2)"
    by (cases "drive s (adapter_for (detectApplicationSystem (applicationUrl job))) job w1")
  obtain ts w3 where n: "toISOString_now s w2 = (ts, w3)" by (cases "toISOString_now s w2")
  show ?thesis
  proof (cases x)
    case (Throws m)
    then show ?thesis using e a d n r
      by (auto simp: applyToJob_def applyToJob_try_def applyVia_def applyToJob_catch_def Let_def
          has_key_def ApplicationResult_fields_def)
  next
    case (Returns success)
    then show ?thesis using e a d n r
      by (auto simp: applyToJob_def applyToJob_try_def applyVia_def Let_def
          has_key_def ApplicationResult_fields_def)
  qed
qed

lemma batch_loop_prefix: "prefix (results (batch st)) (results (batch (batch_loop c uid n i ids st)))"
  using batch_loop_results[of c uid n i ids st] by (auto simp: prefix_def)

lemma processBatchApplications_shapes:
  "\<forall>r \<in> set (results (batch (processBatchApplications c uid ids statuses w))).
      \<exists>jobId \<in> set ids. batch_entry_shape jobId r"
  using processBatchApplications_results[of ids c uid statuses w]
  by (metis in_set_conv_nth list_all2_conv_all_nth nth_mem)

text \<open>
  C9, as amended. Every element of the results of a batch has one of the two shapes of
  \<open>batch_entry_shape\<close> for one of the job ids: \<open>jobId\<close>, \<open>success = false\<close> and
  \<open>error\<close>, or \<open>jobId\<close>, \<open>success = true\<close> and \<open>applicationId\<close>. The loop only
  appends to the results. A value that \<open>applyToJob\<close> returns once the browser is
  available has the fields jobId, success, company, title, applicationUrl and timestamp,
  with \<open>error\<close> when the adapter threw, and it is appended to \<open>applicationResults\<close>.
\<close>

theorem results_shapes_append_only:
  "(\<forall>r \<in> set (results (batch (processBatchApplications c uid ids statuses w))).
      \<exists>jobId \<in> set ids. batch_entry_shape jobId r)
   \<and> prefix (results (batch st)) (results (batch (batch_loop c uid n i ids' st)))
   \<and> (\<forall>ap1 w1 r ap' w'.
         ensure_browser s ap w0 = (True, ap1, w1) \<and> applyToJob s ap job w0 = (Returns r, ap', w')
         \<longrightarrow> (\<forall>f \<in> set ApplicationResult_fields. has_key r f)
             \<and> applicationResults ap' = applicationResults ap @ [r]
             \<and> (\<forall>m w2. drive s (adapter_for (detectApplicationSystem (applicationUrl job))) job w1
                      = (Throws m, w2) \<longrightarrow> has_key r ''error''))"
proof (intro conjI allI impI)
  show "\<forall>r \<in> set (results (batch (processBatchApplications c uid ids statuses w))).
      \<exists>jobId \<in> set ids. batch_entry_shape jobId r"
    by (rule processBatchApplications_shapes)
next
  show "prefix (results (batch st)) (results (batch (batch_loop c uid n i ids' st)))"
    by (rule batch_loop_prefix)
next
  fix ap1 w1 r ap' w'
  assume h: "ensure_browser s ap w0 = (True, ap1, w1) \<and> applyToJob s ap job w0 = (Returns r, ap', w')"
  show "\<forall>f \<in> set ApplicationResult_fields. has_key r f"
    using h applyToJob_fields[of s ap w0 ap1 w1 job r ap' w'] by blast
  show "applicationResults ap' = applicationResults ap @ [r]"
    using h applyToJob_fields[of s ap w0 ap1 w1 job r ap' w'] by blast
next
  fix ap1 w1 r ap' w' m w2
  assume h: "ensure_browser s ap w0 = (True, ap1, w1) \<and> applyToJob s ap job w0 = (Returns r, ap', w')"
    and d: "drive s (adapter_for (detectApplicationSystem (applicationUrl job))) job w1 = (Throws m, w2)"
  show "has_key r ''error''"
    using h d applyToJob_fields[of s ap w0 ap1 w1 job r ap' w'] by blast
qed

text \<open>
  C9 as stated fails: the result recorded for a job of a batch has no company and no
  timestamp.
\<close>

theorem batch_result_incomplete_counterexample:
  "results (batch (processBatchApplications demo_collaborators ''u1'' [''missing''] Map.empty [''lq3k1xb7q2'']))
     = [failed_entry ''missing'' (JStr ''Job is not defined'')]
   \<and> \<not> has_key (failed_entry ''missing'' (JStr ''Job is not defined'')) ''company''
   \<and> \<not> has_key (failed_entry ''missing'' (JStr ''Job is not defined'')) ''timestamp''"
  by code_simp

theorem results_shapes_witness:
  "ensure_browser demo_session \<lparr>browser = False, applicationResults = []\<rparr> 0
      = (True, \<lparr>browser = True, applicationResults = []\<rparr>, 1)
   \<and> fst (applyToJob demo_session \<lparr>browser = False, applicationResults = []\<rparr>
            (demo_job ''j1''\<lparr>applicationUrl := ''https://boards.greenhouse.io/acme/jobs/1''\<rparr>) 0)
       = Returns [(''success'', JBool True), (''jobId'', JStr ''j1''), (''company'', JStr ''Acme''),
                  (''title'', JStr ''Data Engineer''),
                  (''applicationUrl'', JStr ''https://boards.greenhouse.io/acme/jobs/1''),
                  (''timestamp'', JStr ''2024-01-01T00:00:00.000Z'')]
   \<and> list_all (has_key [(''success'', JBool True), (''jobId'', JStr ''j1''), (''company'', JStr ''Acme''),
                  (''title'', JStr ''Data Engineer''),
                  (''applicationUrl'', JStr ''https://boards.greenhouse.io/acme/jobs/1''),
                  (''timestamp'', JStr ''2024-01-01T00:00:00.000Z'')]) ApplicationResult_fields
   \<and> results (batch (processBatchApplications demo_collaborators ''u1'' [''j1'', ''missing'']
          Map.empty [''lq3k1xb7q2'']))
       = [failed_entry ''j1'' (JStr ''Job is not defined''),
          failed_entry ''missing'' (JStr ''Job is not defined'')]
   \<and> list_all (\<lambda>r. list_ex (\<lambda>jobId. batch_entry_shape jobId r) [''j1'', ''missing''])
         (results (batch (processBatchApplications demo_collaborators ''u1'' [''j1'', ''missing'']
          Map.empty [''lq3k1xb7q2''])))"
proof -
  let ?ap = "\<lparr>browser = False, applicationResults = []\<rparr>"
  let ?job = "demo_job ''j1''\<lparr>applicationUrl := ''https://boards.greenhouse.io/acme/jobs/1''\<rparr>"
  let ?r = "[(''success'', JBool True), (''jobId'', JStr ''j1''), (''company'', JStr ''Acme''),
             (''title'', JStr ''Data Engineer''),
             (''applicationUrl'', JStr ''https://boards.greenhouse.io/acme/jobs/1''),
             (''timestamp'', JStr ''2024-01-01T00:00:00.000Z'')]"
  have a: "ensure_browser demo_session ?ap 0 = (True, \<lparr>browser = True, applicationResults = []\<rparr>, 1)"
    by code_simp
  have b: "applyToJob demo_session ?ap ?job 0 = (Returns ?r, \<lparr>browser = True, applicationResults = [?r]\<rparr>, 3)"
    by code_simp
  have c: "results (batch (processBatchApplications demo_collaborators ''u1'' [''j1'', ''missing'']
          Map.empty [''lq3k1xb7q2'']))
       = [failed_entry ''j1'' (JStr ''Job is not defined''),
          failed_entry ''missing'' (JStr ''Job is not defined'')]"
    by code_simp
  note t = results_shapes_append_only[where c = demo_collaborators and uid = "''u1''"
      and ids = "[''j1'', ''missing'']" and statuses = Map.empty and w = "[''lq3k1xb7q2'']"
      and s = demo_session and ap = ?ap and ?w0.0 = 0 and job = ?job]
  have d: "\<forall>f \<in> set ApplicationResult_fields. has_key ?r f"
    using t a b by blast
  have e: "\<forall>r \<in> set (results (batch (processBatchApplications demo_collaborators ''u1''
            [''j1'', ''missing''] Map.empty [''lq3k1xb7q2'']))).
            \<exists>jobId \<in> set [''j1'', ''missing'']. batch_entry_shape jobId r"
    using t by blast
  show ?thesis
    using a b c d e by (simp add: list_all_iff list_ex_iff)
qed

section \<open>Properties of the credential vault\<close>

lemma hex_value_hex_digit: "n < 16 \<Longrightarrow> hex_value (hex_digit n) = Some n"
proof -
  assume "n < 16"
  then have "n \<in> set [0..<16]" by simp
  then have "n \<in> {0,1,2,3,4,5,6,7,8,9,10,11,12,13,14,15}"
    by (simp add: upt_rec numeral_eq_Suc)
  then show ?thesis
    by (auto simp: hex_value_def hex_digit_def Let_def)
qed

lemma hex_digit_not_colon: "n < 16 \<Longrightarrow> hex_digit n \<noteq> CHR '':''"
proof -
  assume "n < 16"
  then have "hex_value (hex_digit n) = Some n" by (rule hex_value_hex_digit)
  moreover have "hex_value CHR '':'' = None" by (simp add: hex_value_def)
  ultimately show ?thesis by auto
qed

lemma from_hex_to_hex: "from_hex (to_hex bs) = bs"
proof (induction bs)
  case Nil
  then show ?case by (simp add: to_hex_def)
next
  case (Cons b bs)
  have h: "unat b div 16 < 16" using unsigned_less[of b, where ?'a = nat] by simp
  have l: "unat b mod 16 < 16" by simp
  have "to_hex (b # bs) = hex_digit (unat b div 16) # hex_digit (unat b mod 16) # to_hex bs"
    by (simp add: to_hex_def)
  then show ?case
    using Cons.IH hex_value_hex_digit[OF h] hex_value_hex_digit[OF l] by simp
qed

lemma colon_notin_to_hex: "CHR '':'' \<notin> set (to_hex bs)"
proof (induction bs)
  case Nil
  then show ?case by (simp add: to_hex_def)
next
  case (Cons b bs)
  have h: "unat b div 16 < 16" using unsigned_less[of b, where ?'a = nat] by simp
  have l: "unat b mod 16 < 16" by simp
  have "to_hex (b # bs) = hex_digit (unat b div 16) # hex_digit (unat b mod 16) # to_hex bs"
    by (simp add: to_hex_def)
  then show ?case
    using Cons.IH hex_digit_not_colon[OF h] hex_digit_not_colon[OF l] by auto
qed

lemma split_no_sep: "c \<notin> set s \<Longrightarrow> split c s = [s]"
  by (induction s) auto

lemma split_one_sep: "c \<notin> set a \<Longrightarrow> c \<notin> set b \<Longrightarrow> split c (a @ c # b) = [a, b]"
  by (induction a) (auto simp: split_no_sep)

lemma str_includes_char: "str_includes s [c] \<longleftrightarrow> c \<in> set s"
  by (induction s) auto

lemma obj_set_append: "k \<notin> fst ` set ob \<Longrightarrow> obj_set ob k v = ob @ [(k, v)]"
  by (induction ob) auto

lemma map_of_obj_set: "map_of (obj_set ob k v) k' = (if k' = k then Some v else map_of ob k')"
  by (induction ob) auto

lemma keys_obj_set: "fst ` set (obj_set ob k v) = insert k (fst ` set ob)"
proof (induction ob)
  case Nil
  then show ?case by simp
next
  case (Cons p ob)
  obtain k' v' where p: "p = (k', v')" by (cases p)
  show ?case
  proof (cases "k' = k")
    case True
    then show ?thesis using p by simp
  next
    case False
    then show ?thesis using p Cons.IH by (simp add: insert_commute)
  qed
qed

lemma distinct_obj_set: "distinct (map fst ob) \<Longrightarrow> distinct (map fst (obj_set ob k v))"
proof (induction ob)
  case Nil
  then show ?case by simp
next
  case (Cons p ob)
  obtain k' v' where p: "p = (k', v')" by (cases p)
  show ?case
  proof (cases "k' = k")
    case True
    then show ?thesis using Cons.prems p by simp
  next
    case False
    have "k' \<notin> fst ` set (obj_set ob k v)"
      using Cons.prems p False by (simp add: keys_obj_set)
    then show ?thesis using Cons p False by simp
  qed
qed

text \<open>Decrypting what \<open>encrypt\<close> gives for a non-empty string, under a cipher that inverts.\<close>

lemma decrypt_encrypt:
  assumes ne: "data \<noteq> []"
    and rb: "randomBytes cr 16 w = (iv, w1)"
    and ci: "cipher cr (from_hex (encryptionKey cm)) iv data = Returns ct"
    and de: "decipher cr (from_hex (encryptionKey cm)) iv ct = Returns data"
  shows "encrypt cr cm data w = (Returns (JStr (to_hex iv @ '':'' @ to_hex ct)), w1)
         \<and> str_includes (to_hex iv @ '':'' @ to_hex ct) '':''
         \<and> decrypt cr cm (to_hex iv @ '':'' @ to_hex ct) = Returns (JStr data)"
proof -
  have e: "encrypt cr cm data w = (Returns (JStr (to_hex iv @ '':'' @ to_hex ct)), w1)"
    using ne rb ci by (simp add: encrypt_def)
  have i: "str_includes (to_hex iv @ '':'' @ to_hex ct) '':''"
    by (simp add: str_includes_char)
  have s: "split CHR '':'' (to_hex iv @ '':'' @ to_hex ct) = [to_hex iv, to_hex ct]"
    using split_one_sep[OF colon_notin_to_hex colon_notin_to_hex, of iv ct] by simp
  have d: "decrypt cr cm (to_hex iv @ '':'' @ to_hex ct) = Returns (JStr data)"
    using s de by (simp add: decrypt_def from_hex_to_hex)
  show ?thesis using e i d by blast
qed

lemma field_round_trip:
  assumes v: "v \<noteq> JStr []"
    and rl: "\<forall>w. length (fst (randomBytes cr 16 w)) = 16"
    and ci: "\<forall>s iv. v = JStr s \<and> length iv = 16 \<longrightarrow>
              (\<exists>ct. cipher cr (from_hex (encryptionKey cm)) iv s = Returns ct
                  \<and> decipher cr (from_hex (encryptionKey cm)) iv ct = Returns s)"
  shows "\<exists>x w1. (\<forall>rest acc. encrypt_fields cr cm ((k, v) # rest) acc w
                      = encrypt_fields cr cm rest (obj_set acc k x) w1)
              \<and> (\<forall>enc acc'. decrypt_fields cr cm ((k, x) # enc) acc'
                      = decrypt_fields cr cm enc (obj_set acc' k v))"
proof (cases v)
  case (JStr s)
  obtain iv w1 where rb: "randomBytes cr 16 w = (iv, w1)" by (cases "randomBytes cr 16 w")
  have il: "length iv = 16" using rl rb by (metis fst_conv)
  obtain ct where c: "cipher cr (from_hex (encryptionKey cm)) iv s = Returns ct"
    and d: "decipher cr (from_hex (encryptionKey cm)) iv ct = Returns s"
    using ci JStr il by blast
  have ne: "s \<noteq> []" using v JStr by simp
  let ?e = "to_hex iv @ '':'' @ to_hex ct"
  note de = decrypt_encrypt[OF ne rb c d]
  have a: "\<forall>rest acc. encrypt_fields cr cm ((k, v) # rest) acc w
                      = encrypt_fields cr cm rest (obj_set acc k (JStr ?e)) w1"
    using de JStr by simp
  have b: "\<forall>enc acc'. decrypt_fields cr cm ((k, JStr ?e) # enc) acc'
                      = decrypt_fields cr cm enc (obj_set acc' k v)"
    using de JStr by simp
  show ?thesis using a b by blast
next
  case JUndefined
  then have "(\<forall>rest acc. encrypt_fields cr cm ((k, v) # rest) acc w
                      = encrypt_fields cr cm rest (obj_set acc k v) w)
              \<and> (\<forall>enc acc'. decrypt_fields cr cm ((k, v) # enc) acc'
                      = decrypt_fields cr cm enc (obj_set acc' k v))" by simp
  then show ?thesis by blast
next
  case JNull
  then have "(\<forall>rest acc. encrypt_fields cr cm ((k, v) # rest) acc w
                      = encrypt_fields cr cm rest (obj_set acc k v) w)
              \<and> (\<forall>enc acc'. decrypt_fields cr cm ((k, v) # enc) acc'
                      = decrypt_fields cr cm enc (obj_set acc' k v))" by simp
  then show ?thesis by blast
next
  case (JBool b)
  then have "(\<forall>rest acc. encrypt_fields cr cm ((k, v) # rest) acc w
                      = encrypt_fields cr cm rest (obj_set acc k v) w)
              \<and> (\<forall>enc acc'. decrypt_fields cr cm ((k, v) # enc) acc'
                      = decrypt_fields cr cm enc (obj_set acc' k v))" by simp
  then show ?thesis by blast
next
  case (JNum n)
  then have "(\<forall>rest acc. encrypt_fields cr cm ((k, v) # rest) acc w
                      = encrypt_fields cr cm rest (obj_set acc k v) w)
              \<and> (\<forall>enc acc'. decrypt_fields cr cm ((k, v) # enc) acc'
                      = decrypt_fields cr cm enc (obj_set acc' k v))" by simp
  then show ?thesis by blast
qed

lemma encrypt_fields_round_trip:
  assumes "distinct (map fst entries)"
    and "fst ` set entries \<inter> fst ` set acc = {}"
    and "JStr [] \<notin> snd ` set entries"
    and "\<forall>s iv. JStr s \<in> snd ` set entries \<and> length iv = 16 \<longrightarrow>
              (\<exists>ct. cipher cr (from_hex (encryptionKey cm)) iv s = Returns ct
                  \<and> decipher cr (from_hex (encryptionKey cm)) iv ct = Returns s)"
    and "\<forall>w. length (fst (randomBytes cr 16 w)) = 16"
  shows "\<exists>enc w'. encrypt_fields cr cm entries acc w = (Returns (acc @ enc), w')
          \<and> (\<forall>acc'. fst ` set entries \<inter> fst ` set acc' = {}
                \<longrightarrow> decrypt_fields cr cm enc acc' = Returns (acc' @ entries))"
  using assms
proof (induction entries arbitrary: acc w)
  case Nil
  then show ?case by simp
next
  case (Cons p rest)
  obtain k v where p: "p = (k, v)" by (cases p)
  have v: "v \<noteq> JStr []" using Cons.prems(3) p by force
  have ci: "\<forall>s iv. v = JStr s \<and> length iv = 16 \<longrightarrow>
              (\<exists>ct. cipher cr (from_hex (encryptionKey cm)) iv s = Returns ct
                  \<and> decipher cr (from_hex (encryptionKey cm)) iv ct = Returns s)"
    using Cons.prems(4) p by force
  note rl = Cons.prems(5)
  obtain x w1 where
    a: "\<forall>rest acc. encrypt_fields cr cm ((k, v) # rest) acc w
                      = encrypt_fields cr cm rest (obj_set acc k x) w1"
    and b: "\<forall>enc acc'. decrypt_fields cr cm ((k, x) # enc) acc'
                      = decrypt_fields cr cm enc (obj_set acc' k v)"
    using field_round_trip[OF v rl ci, of k w] by blast
  have kacc: "k \<notin> fst ` set acc" using Cons.prems(2) p by auto
  have krest: "k \<notin> fst ` set rest" using Cons.prems(1) p by auto
  have os: "obj_set acc k x = acc @ [(k, x)]" using kacc by (rule obj_set_append)
  have q1: "distinct (map fst rest)" using Cons.prems(1) by simp
  have q2: "fst ` set rest \<inter> fst ` set (acc @ [(k, x)]) = {}"
    using Cons.prems(2) krest by auto
  have q3: "JStr [] \<notin> snd ` set rest" using Cons.prems(3) by auto
  have q4: "\<forall>s iv. JStr s \<in> snd ` set rest \<and> length iv = 16 \<longrightarrow>
              (\<exists>ct. cipher cr (from_hex (encryptionKey cm)) iv s = Returns ct
                  \<and> decipher cr (from_hex (encryptionKey cm)) iv ct = Returns s)"
    using Cons.prems(4) by auto
  obtain enc w' where
    e: "encrypt_fields cr cm rest (acc @ [(k, x)]) w1 = (Returns ((acc @ [(k, x)]) @ enc), w')"
    and d: "\<forall>acc'. fst ` set rest \<inter> fst ` set acc' = {}
                \<longrightarrow> decrypt_fields cr cm enc acc' = Returns (acc' @ rest)"
    using Cons.IH[OF q1 q2 q3 q4 rl, of w1] by blast
  have g1: "encrypt_fields cr cm (p # rest) acc w = (Returns (acc @ ((k, x) # enc)), w')"
    using a e os p by simp
  have g2: "\<forall>acc'. fst ` set (p # rest) \<inter> fst ` set acc' = {}
                \<longrightarrow> decrypt_fields cr cm ((k, x) # enc) acc' = Returns (acc' @ p # rest)"
  proof (intro allI impI)
    fix acc' :: obj
    assume h: "fst ` set (p # rest) \<inter> fst ` set acc' = {}"
    have k': "k \<notin> fst ` set acc'" using h p by auto
    have os': "obj_set acc' k v = acc' @ [(k, v)]" using k' by (rule obj_set_append)
    have dj: "fst ` set rest \<inter> fst ` set (acc' @ [(k, v)]) = {}" using h krest by auto
    have "decrypt_fields cr cm ((k, x) # enc) acc' = decrypt_fields cr cm enc (acc' @ [(k, v)])"
      using b os' by simp
    also have "\<dots> = Returns ((acc' @ [(k, v)]) @ rest)" using d dj by blast
    finally show "decrypt_fields cr cm ((k, x) # enc) acc' = Returns (acc' @ p # rest)"
      using p by simp
  qed
  show ?case using g1 g2 by blast
qed

lemma new_CredentialManager_key:
  "new_CredentialManager arg env_key = Returns cm \<Longrightarrow> length (from_hex (encryptionKey cm)) = 32"
  by (auto simp: new_CredentialManager_def Let_def split: option.splits if_splits)

lemma demo_manager_constructed:
  "new_CredentialManager (Some ''000102030405060708090a0b0c0d0e0f101112131415161718191a1b1c1d1e1f'') None
     = Returns demo_manager"
  by code_simp

lemma demo_randomBytes_length: "length (fst (randomBytes demo_crypto n w)) = n"
  by (simp add: demo_crypto_def)

lemma demo_cipher_inverts:
  assumes "length key = 32" and "length iv = 16"
  shows "\<exists>ct. cipher demo_crypto key iv s = Returns ct \<and> decipher demo_crypto key iv ct = Returns s"
proof -
  have "char_of (unat (word_of_nat (of_char c) :: byte)) = c" for c :: char
    by (simp add: unat_of_nat)
  then have "map (\<lambda>b. char_of (unat b)) (map (\<lambda>c. word_of_nat (of_char c) :: byte) s) = s"
    by (simp add: map_idI)
  then show ?thesis using assms by (simp add: demo_crypto_def rev_map)
qed

text \<open>
  C1, as amended. Let the manager be one that its constructor returned (its key decodes
  to 32 bytes), let \<open>randomBytes(16)\<close> give 16 bytes, and let the cipher and decipher be
  inverse on the strings of the bag for every key of 32 bytes and every initialization
  vector of 16 bytes. Then for every user, portal and secret bag (with distinct keys) none
  of whose values is the empty string: whenever \<open>storeCredentials\<close> returns,
  \<open>getCredentials\<close> on the resulting store returns the original bag.
\<close>

theorem credentials_round_trip_nonempty:
  assumes mk: "new_CredentialManager arg env_key = Returns cm"
    and rl: "\<forall>w. length (fst (randomBytes cr 16 w)) = 16"
    and ci: "\<forall>s key iv. JStr s \<in> snd ` set bag \<and> length key = 32 \<and> length iv = 16 \<longrightarrow>
              (\<exists>ct. cipher cr key iv s = Returns ct \<and> decipher cr key iv ct = Returns s)"
    and dk: "distinct (map fst bag)"
    and ne: "JStr [] \<notin> snd ` set bag"
  shows "\<forall>enc db' w'. storeCredentials cr cm db uid portal bag w = (Returns enc, db', w')
            \<longrightarrow> getCredentials cr cm db' uid portal = Returns (Some bag)"
proof (intro allI impI)
  fix enc db' w'
  assume s: "storeCredentials cr cm db uid portal bag w = (Returns enc, db', w')"
  have kl: "length (from_hex (encryptionKey cm)) = 32"
    using mk by (rule new_CredentialManager_key)
  have ci': "\<forall>s iv. JStr s \<in> snd ` set bag \<and> length iv = 16 \<longrightarrow>
              (\<exists>ct. cipher cr (from_hex (encryptionKey cm)) iv s = Returns ct
                  \<and> decipher cr (from_hex (encryptionKey cm)) iv ct = Returns s)"
    using ci kl by blast
  have dj: "fst ` set bag \<inter> fst ` set ([] :: obj) = {}" by simp
  obtain enc0 w0 where
    e: "encrypt_fields cr cm bag [] w = (Returns ([] @ enc0), w0)"
    and d: "\<forall>acc'. fst ` set bag \<inter> fst ` set acc' = {}
                \<longrightarrow> decrypt_fields cr cm enc0 acc' = Returns (acc' @ bag)"
    using encrypt_fields_round_trip[OF dk dj ne ci' rl, of w] by blast
  have d0: "decrypt_fields cr cm enc0 [] = Returns bag" using d dj by fastforce
  have o: "is_ObjectId uid" and "db' = db((uid, portal) \<mapsto> enc0)"
    using s e by (auto simp: storeCredentials_def split: option.splits if_splits)
  then show "getCredentials cr cm db' uid portal = Returns (Some bag)"
    using d0 by (simp add: getCredentials_def)
qed

text \<open>
  C1 as stated fails at the empty string: the bag \<open>{a: ""}\<close> comes back as
  \<open>{a: null}\<close>.
\<close>

theorem credentials_round_trip_counterexample:
  "getCredentials demo_crypto demo_manager
     (fst (snd (storeCredentials demo_crypto demo_manager Map.empty ''507f1f77bcf86cd799439011''
        ''linkedin'' [(''a'', JStr [])] 0))) ''507f1f77bcf86cd799439011'' ''linkedin''
   = Returns (Some [(''a'', JNull)])
   \<and> Returns (Some [(''a'', JNull)]) \<noteq> Returns (Some [(''a'', JStr [])])"
  by code_simp

theorem credentials_round_trip_witness:
  "new_CredentialManager (Some ''000102030405060708090a0b0c0d0e0f101112131415161718191a1b1c1d1e1f'') None
     = Returns demo_manager
   \<and> fst (storeCredentials demo_crypto demo_manager Map.empty ''507f1f77bcf86cd799439011''
        ''linkedin'' [(''email'', JStr ''ada@example.org''), (''password'', JStr ''hunter2'')] 0)
     = Returns [(''email'', JStr ''00000000000000000000000000000000:0000000000000000000000000000000067726f2e656c706d61786540616461''),
                (''password'', JStr ''01010101010101010101010101010101:01010101010101010101010101010101327265746e7568'')]
   \<and> getCredentials demo_crypto demo_manager
     (fst (snd (storeCredentials demo_crypto demo_manager Map.empty ''507f1f77bcf86cd799439011''
        ''linkedin'' [(''email'', JStr ''ada@example.org''), (''password'', JStr ''hunter2'')] 0)))
     ''507f1f77bcf86cd799439011'' ''linkedin''
   = Returns (Some [(''email'', JStr ''ada@example.org''), (''password'', JStr ''hunter2'')])"
proof -
  let ?bag = "[(''email'', JStr ''ada@example.org''), (''password'', JStr ''hunter2'')]"
  let ?enc = "[(''email'', JStr ''00000000000000000000000000000000:0000000000000000000000000000000067726f2e656c706d61786540616461''),
               (''password'', JStr ''01010101010101010101010101010101:01010101010101010101010101010101327265746e7568'')]"
  let ?s = "storeCredentials demo_crypto demo_manager Map.empty ''507f1f77bcf86cd799439011''
        ''linkedin'' ?bag 0"
  have mk: "new_CredentialManager (Some ''000102030405060708090a0b0c0d0e0f101112131415161718191a1b1c1d1e1f'') None
     = Returns demo_manager"
    by (rule demo_manager_constructed)
  have rl: "\<forall>w. length (fst (randomBytes demo_crypto 16 w)) = 16"
    by (simp add: demo_randomBytes_length)
  have ci: "\<forall>s key iv. JStr s \<in> snd ` set ?bag \<and> length key = 32 \<and> length iv = 16 \<longrightarrow>
              (\<exists>ct. cipher demo_crypto key iv s = Returns ct
                  \<and> decipher demo_crypto key iv ct = Returns s)"
    using demo_cipher_inverts by blast
  have dk: "distinct (map fst ?bag)" by simp
  have ne: "JStr [] \<notin> snd ` set ?bag" by simp
  have a: "fst ?s = Returns ?enc" by code_simp
  have s: "?s = (Returns ?enc, fst (snd ?s), snd (snd ?s))"
    using a by (metis prod.collapse)
  have g: "getCredentials demo_crypto demo_manager (fst (snd ?s)) ''507f1f77bcf86cd799439011''
      ''linkedin'' = Returns (Some ?bag)"
    using credentials_round_trip_nonempty[OF mk rl ci dk ne,
        of Map.empty "''507f1f77bcf86cd799439011''" "''linkedin''" 0] s
    by blast
  show ?thesis using mk a g by blast
qed

lemma encrypt_fields_other:
  "encrypt_fields cr cm entries acc w = (Returns out, w') \<Longrightarrow> k \<notin> fst ` set entries
     \<Longrightarrow> map_of out k = map_of acc k"
proof (induction entries arbitrary: acc w)
  case Nil
  then show ?case by simp
next
  case (Cons p rest)
  obtain k' v where p: "p = (k', v)" by (cases p)
  have kk: "k \<noteq> k'" and kr: "k \<notin> fst ` set rest" using Cons.prems(2) p by auto
  obtain x w1 where s: "encrypt_fields cr cm rest (obj_set acc k' x) w1 = (Returns out, w')"
    using Cons.prems(1) p
    by (cases v) (auto split: prod.splits outcome.splits)
  have "map_of out k = map_of (obj_set acc k' x) k" using Cons.IH[OF s kr] .
  then show ?case using kk by (simp add: map_of_obj_set)
qed

lemma encrypt_fields_empty_string:
  "encrypt_fields cr cm entries acc w = (Returns out, w') \<Longrightarrow> distinct (map fst entries)
     \<Longrightarrow> (k, JStr []) \<in> set entries \<Longrightarrow> map_of out k = Some JNull"
proof (induction entries arbitrary: acc w)
  case Nil
  then show ?case by simp
next
  case (Cons p rest)
  obtain k' v where p: "p = (k', v)" by (cases p)
  show ?case
  proof (cases "p = (k, JStr [])")
    case True
    then have s: "encrypt_fields cr cm rest (obj_set acc k JNull) w = (Returns out, w')"
      using Cons.prems(1) by (simp add: encrypt_def)
    have kr: "k \<notin> fst ` set rest" using Cons.prems(2) True by auto
    have "map_of out k = map_of (obj_set acc k JNull) k" using encrypt_fields_other[OF s kr] .
    then show ?thesis by (simp add: map_of_obj_set)
  next
    case False
    then have m: "(k, JStr []) \<in> set rest" using Cons.prems(3) by simp
    have d: "distinct (map fst rest)" using Cons.prems(2) by simp
    obtain x w1 where s: "encrypt_fields cr cm rest (obj_set acc k' x) w1 = (Returns out, w')"
      using Cons.prems(1) p
      by (cases v) (auto split: prod.splits outcome.splits)
    show ?thesis using Cons.IH[OF s d m] .
  qed
qed

lemma encrypt_fields_distinct:
  "encrypt_fields cr cm entries acc w = (Returns out, w') \<Longrightarrow> distinct (map fst acc)
     \<Longrightarrow> distinct (map fst out)"
proof (induction entries arbitrary: acc w)
  case Nil
  then show ?case by simp
next
  case (Cons p rest)
  obtain k' v where p: "p = (k', v)" by (cases p)
  obtain x w1 where s: "encrypt_fields cr cm rest (obj_set acc k' x) w1 = (Returns out, w')"
    using Cons.prems(1) p
    by (cases v) (auto split: prod.splits outcome.splits)
  show ?case using Cons.IH[OF s distinct_obj_set[OF Cons.prems(2)]] .
qed

lemma decrypt_fields_other:
  "decrypt_fields cr cm stored acc = Returns out \<Longrightarrow> k \<notin> fst ` set stored
     \<Longrightarrow> map_of out k = map_of acc k"
proof (induction stored arbitrary: acc)
  case Nil
  then show ?case by simp
next
  case (Cons p rest)
  obtain k' v where p: "p = (k', v)" by (cases p)
  have kk: "k \<noteq> k'" and kr: "k \<notin> fst ` set rest" using Cons.prems(2) p by auto
  obtain x where s: "decrypt_fields cr cm rest (obj_set acc k' x) = Returns out"
    using Cons.prems(1) p
    by (cases v) (auto split: if_splits outcome.splits)
  have "map_of out k = map_of (obj_set acc k' x) k" using Cons.IH[OF s kr] .
  then show ?case using kk by (simp add: map_of_obj_set)
qed

lemma decrypt_fields_null:
  "decrypt_fields cr cm stored acc = Returns out \<Longrightarrow> distinct (map fst stored)
     \<Longrightarrow> (k, JNull) \<in> set stored \<Longrightarrow> map_of out k = Some JNull"
proof (induction stored arbitrary: acc)
  case Nil
  then show ?case by simp
next
  case (Cons p rest)
  obtain k' v where p: "p = (k', v)" by (cases p)
  show ?case
  proof (cases "p = (k, JNull)")
    case True
    then have s: "decrypt_fields cr cm rest (obj_set acc k JNull) = Returns out"
      using Cons.prems(1) by simp
    have kr: "k \<notin> fst ` set rest" using Cons.prems(2) True by auto
    have "map_of out k = map_of (obj_set acc k JNull) k" using decrypt_fields_other[OF s kr] .
    then show ?thesis by (simp add: map_of_obj_set)
  next
    case False
    then have m: "(k, JNull) \<in> set rest" using Cons.prems(3) by simp
    have d: "distinct (map fst rest)" using Cons.prems(2) by simp
    obtain x where s: "decrypt_fields cr cm rest (obj_set acc k' x) = Returns out"
      using Cons.prems(1) p
      by (cases v) (auto split: if_splits outcome.splits)
    show ?thesis using Cons.IH[OF s d m] .
  qed
qed

lemma stored_empty_string_null:
  assumes m: "(k, JStr []) \<in> set bag" and dk: "distinct (map fst bag)"
    and s: "storeCredentials cr cm db uid portal bag w = (Returns enc, db', w')"
  shows "db' (uid, portal) = Some enc \<and> map_of enc k = Some JNull
     \<and> (\<forall>res. getCredentials cr cm db' uid portal = Returns res
           \<longrightarrow> (\<exists>got. res = Some got \<and> map_of got k = Some JNull \<and> get_prop got k \<noteq> JStr []))"
proof -
  have e: "encrypt_fields cr cm bag [] w = (Returns enc, w')"
    and d: "db' = db((uid, portal) \<mapsto> enc)"
    using s
    by (auto simp: storeCredentials_def split: prod.splits outcome.splits option.splits if_splits)
  have n: "map_of enc k = Some JNull" using encrypt_fields_empty_string[OF e dk m] .
  have de: "distinct (map fst enc)" using encrypt_fields_distinct[OF e] by simp
  have me: "(k, JNull) \<in> set enc" using n by (rule map_of_SomeD)
  have g: "\<exists>got. res = Some got \<and> map_of got k = Some JNull \<and> get_prop got k \<noteq> JStr []"
    if g: "getCredentials cr cm db' uid portal = Returns res" for res
  proof -
    obtain got where r: "res = Some got" and f: "decrypt_fields cr cm enc [] = Returns got"
      using g d by (auto simp: getCredentials_def split: outcome.splits if_splits)
    have "map_of got k = Some JNull" using decrypt_fields_null[OF f de me] .
    then show ?thesis using r by (simp add: get_prop_def)
  qed
  show ?thesis using d n g by simp
qed

text \<open>
  C10. For every secret bag (with distinct keys) that has a field whose value is the
  empty string: \<open>encrypt\<close> returns null for the empty string; whenever
  \<open>storeCredentials\<close> returns, the stored document has null in that field; and whenever
  a following \<open>getCredentials\<close> returns, it returns a bag with null in that field, not
  the empty string.
\<close>

theorem empty_string_stored_and_returned_as_null:
  assumes m: "(k, JStr []) \<in> set bag" and dk: "distinct (map fst bag)"
  shows "encrypt cr cm [] w = (Returns JNull, w)
     \<and> (\<forall>enc db' w'. storeCredentials cr cm db uid portal bag w = (Returns enc, db', w')
           \<longrightarrow> (\<exists>stored. db' (uid, portal) = Some stored \<and> map_of stored k = Some JNull)
             \<and> (\<forall>res. getCredentials cr cm db' uid portal = Returns res
                   \<longrightarrow> (\<exists>got. res = Some got \<and> map_of got k = Some JNull
                          \<and> get_prop got k \<noteq> JStr [])))"
proof (intro conjI allI impI)
  show "encrypt cr cm [] w = (Returns JNull, w)" by (simp add: encrypt_def)
next
  fix enc db' w'
  assume s: "storeCredentials cr cm db uid portal bag w = (Returns enc, db', w')"
  show "\<exists>stored. db' (uid, portal) = Some stored \<and> map_of stored k = Some JNull"
    using stored_empty_string_null[OF m dk s] by blast
next
  fix enc db' w' res
  assume s: "storeCredentials cr cm db uid portal bag w = (Returns enc, db', w')"
    and g: "getCredentials cr cm db' uid portal = Returns res"
  show "\<exists>got. res = Some got \<and> map_of got k = Some JNull \<and> get_prop got k \<noteq> JStr []"
    using stored_empty_string_null[OF m dk s] g by blast
qed

theorem empty_string_null_witness:
  "(''password'', JStr []) \<in> set [(''email'', JStr ''ada@example.org''), (''password'', JStr [])]
   \<and> distinct (map fst [(''email'', JStr ''ada@example.org''), (''password'', JStr [])])
   \<and> fst (storeCredentials demo_crypto demo_manager Map.empty ''507f1f77bcf86cd799439011'' ''indeed''
        [(''email'', JStr ''ada@example.org''), (''password'', JStr [])] 0)
      = Returns [(''email'', JStr ''00000000000000000000000000000000:0000000000000000000000000000000067726f2e656c706d61786540616461''),
                 (''password'', JNull)]
   \<and> getCredentials demo_crypto demo_manager
        (fst (snd (storeCredentials demo_crypto demo_manager Map.empty ''507f1f77bcf86cd799439011'' ''indeed''
           [(''email'', JStr ''ada@example.org''), (''password'', JStr [])] 0))) ''507f1f77bcf86cd799439011'' ''indeed''
      = Returns (Some [(''email'', JStr ''ada@example.org''), (''password'', JNull)])
   \<and> (\<exists>got. Some [(''email'', JStr ''ada@example.org''), (''password'', JNull)] = Some got
          \<and> map_of got ''password'' = Some JNull \<and> get_prop got ''password'' \<noteq> JStr [])"
proof -
  let ?bag = "[(''email'', JStr ''ada@example.org''), (''password'', JStr [])]"
  let ?enc = "[(''email'', JStr ''00000000000000000000000000000000:0000000000000000000000000000000067726f2e656c706d61786540616461''),
               (''password'', JNull)]"
  let ?s = "storeCredentials demo_crypto demo_manager Map.empty ''507f1f77bcf86cd799439011'' ''indeed'' ?bag 0"
  have m: "(''password'', JStr []) \<in> set ?bag" by simp
  have dk: "distinct (map fst ?bag)" by simp
  have a: "fst ?s = Returns ?enc" by code_simp
  have g: "getCredentials demo_crypto demo_manager (fst (snd ?s)) ''507f1f77bcf86cd799439011'' ''indeed''
      = Returns (Some [(''email'', JStr ''ada@example.org''), (''password'', JNull)])"
    by code_simp
  have s: "?s = (Returns ?enc, fst (snd ?s), snd (snd ?s))"
    using a by (metis prod.collapse)
  have "\<exists>got. Some [(''email'', JStr ''ada@example.org''), (''password'', JNull)] = Some got
          \<and> map_of got ''password'' = Some JNull \<and> get_prop got ''password'' \<noteq> JStr []"
    using empty_string_stored_and_returned_as_null[OF m dk, of demo_crypto demo_manager 0 Map.empty "''507f1f77bcf86cd799439011''" "''indeed''"]
      s g by blast
  then show ?thesis using m dk a g by blast
qed

end
